theory Spec2Isabelle
  imports Main
begin

section \<open>Python values and string helpers\<close>

text \<open>
  The program is \<^verbatim>\<open>src/substack_dl/main.py\<close>. Python rebinds a name at each
  \<^verbatim>\<open>def\<close>, so the functions in force are the last definitions of
  \<^verbatim>\<open>download_images_and_rewrite_paths\<close> (line 274) and
  \<^verbatim>\<open>process_single_post\<close> (line 559); the two earlier drafts of
  \<^verbatim>\<open>process_single_post\<close> are dead code.

  Values that come out of \<^verbatim>\<open>json.loads\<close> are modelled by the datatype below;
  \<open>JNull\<close> is Python's \<^verbatim>\<open>None\<close>. Floats are left out.
\<close>

datatype json =
    JNull
  | JBool bool
  | JNum int
  | JStr string
  | JList "json list"
  | JDict "(string \<times> json) list"

text \<open>Python truthiness (\<^verbatim>\<open>if x:\<close>, \<^verbatim>\<open>not x\<close>).\<close>

fun truthy :: "json \<Rightarrow> bool" where
  "truthy JNull = False"
| "truthy (JBool b) = b"
| "truthy (JNum n) = (n \<noteq> 0)"
| "truthy (JStr s) = (s \<noteq> [])"
| "truthy (JList xs) = (xs \<noteq> [])"
| "truthy (JDict kvs) = (kvs \<noteq> [])"

text \<open>\<^verbatim>\<open>d.get(k)\<close>: the value, or \<^verbatim>\<open>None\<close> when the key is absent.\<close>

definition dict_get :: "(string \<times> json) list \<Rightarrow> string \<Rightarrow> json" where
  "dict_get d k = (case map_of d k of None \<Rightarrow> JNull | Some v \<Rightarrow> v)"

text \<open>The exception classes the handlers of the program tell apart.\<close>

datatype py_exception =
    HTTPError nat
  | RequestException
  | JSONDecodeError
  | AttributeError
  | TypeError
  | OSError
  | UnicodeDecodeError
  | ValueError
  | OverflowError
  | OtherException

text \<open>
  \<^verbatim>\<open>s.split(c)\<close> for a one-character separator: never the empty list.
\<close>

fun split_on :: "char \<Rightarrow> string \<Rightarrow> string list" where
  "split_on c [] = [[]]"
| "split_on c (x # xs) =
     (if x = c then [] # split_on c xs
      else (case split_on c xs of [] \<Rightarrow> [[x]] | w # ws \<Rightarrow> (x # w) # ws))"

text \<open>
  \<^verbatim>\<open>s.strip()\<close>. A character of the model is a code point below 256; among these
  \<^verbatim>\<open>str.isspace\<close> holds of the tab, line feed, vertical tab, form feed and carriage
  return, of the four separators \<^verbatim>\<open>\x1c\<close> to \<^verbatim>\<open>\x1f\<close>, of the space, of the
  next-line character \<^verbatim>\<open>\x85\<close> and of the no-break space \<^verbatim>\<open>\xa0\<close>.
\<close>

definition is_space :: "char \<Rightarrow> bool" where
  "is_space c =
     (let n = (of_char c :: nat)
      in (9 \<le> n \<and> n \<le> 13) \<or> (28 \<le> n \<and> n \<le> 32) \<or> n = 133 \<or> n = 160)"

definition strip :: "string \<Rightarrow> string" where
  "strip s = rev (dropWhile is_space (rev (dropWhile is_space s)))"

text \<open>\<^verbatim>\<open>s.replace(c, t)\<close> for a one-character pattern.\<close>

definition replace_char :: "char \<Rightarrow> string \<Rightarrow> string \<Rightarrow> string" where
  "replace_char c t s = concat (map (\<lambda>x. if x = c then t else [x]) s)"

text \<open>\<^verbatim>\<open>str(n)\<close> for a natural number, as the f-strings print it.\<close>

definition digit_char :: "nat \<Rightarrow> char" where
  "digit_char d = ''0123456789'' ! d"

fun str_nat :: "nat \<Rightarrow> string" where
  "str_nat n = (if n < 10 then [digit_char n] else str_nat (n div 10) @ [digit_char (n mod 10)])"

declare str_nat.simps [simp del]

text \<open>Zero-padded decimal of a given width (\<^verbatim>\<open>%m\<close>, \<^verbatim>\<open>%d\<close>).\<close>

definition pad_nat :: "nat \<Rightarrow> nat \<Rightarrow> string" where
  "pad_nat w n = replicate (w - length (str_nat n)) CHR ''0'' @ str_nat n"

section \<open>Dates\<close>

text \<open>
  A \<^verbatim>\<open>datetime\<close> is kept as its calendar date, the only part the program prints.
  The parsers \<^verbatim>\<open>datetime.fromisoformat\<close> and \<^verbatim>\<open>datetime.strptime\<close> are
  library code and are parameters of the model (\<open>None\<close> is \<^verbatim>\<open>ValueError\<close>).
  \<^verbatim>\<open>strftime\<close> hands \<^verbatim>\<open>%Y\<close> to the C library; the model follows glibc, which
  prints the year without padding (the year 99 as \<^verbatim>\<open>99\<close>), and pads month and day to
  two digits.
\<close>

record pydate =
  year :: nat
  month :: nat
  day :: nat

definition strftime_dashed :: "pydate \<Rightarrow> string" where
  "strftime_dashed d = str_nat (year d) @ ''-'' @ pad_nat 2 (month d) @ ''-'' @ pad_nat 2 (day d)"

definition strftime_compact :: "pydate \<Rightarrow> string" where
  "strftime_compact d = str_nat (year d) @ pad_nat 2 (month d) @ pad_nat 2 (day d)"

section \<open>Metadata extraction\<close>

text \<open>
  \<^verbatim>\<open>BeautifulSoup(post_html, 'html.parser')\<close> is library code. The model takes
  what \<^verbatim>\<open>extract_metadata_from_post\<close> reads from the parsed page:
  the first \<^verbatim>\<open>application/ld+json\<close> script with the outcome of
  \<^verbatim>\<open>json.loads\<close> on its text, and the \<^verbatim>\<open>content\<close> attribute of each meta
  element the function looks up (\<open>None\<close> when the element has no such attribute).
\<close>

datatype ld_script = LoadsRaises | Loaded json

type_synonym meta_tag = "string option"

record soup =
  json_ld_script :: "ld_script option"
  meta_article_author_name :: "meta_tag option"
  meta_name_author :: "meta_tag option"
  meta_article_published_time :: "meta_tag option"
  meta_og_published_time :: "meta_tag option"
  meta_cxense_publishtime :: "meta_tag option"
  meta_article_tag :: "meta_tag list"

record metadata =
  title :: json
  author :: json
  published_date :: json
  tags :: "string list"
  url :: string

text \<open>\<^verbatim>\<open>a or b\<close> on two \<^verbatim>\<open>soup.find\<close> results (a found tag is truthy).\<close>

definition find_or :: "'a option \<Rightarrow> 'a option \<Rightarrow> 'a option" where
  "find_or a b = (case a of Some t \<Rightarrow> Some t | None \<Rightarrow> b)"

text \<open>Lines 140 to 152: the dictionary the fields are read from.\<close>

fun is_article :: "json \<Rightarrow> bool" where
  "is_article (JDict d) =
     (dict_get d ''@type'' = JStr ''NewsArticle'' \<or> dict_get d ''@type'' = JStr ''Article'')"
| "is_article _ = False"

definition select_json_data :: "json \<Rightarrow> (string \<times> json) list" where
  "select_json_data j =
     (case j of
        JList items \<Rightarrow>
          (let processed_json_data =
                 (case filter is_article items of JDict d # _ \<Rightarrow> d | _ \<Rightarrow> [])
           in if processed_json_data = [] \<and> items \<noteq> [] then
                (case hd items of JDict d \<Rightarrow> d | _ \<Rightarrow> processed_json_data)
              else processed_json_data)
      | JDict d \<Rightarrow> d
      | _ \<Rightarrow> [])"

text \<open>Lines 155 to 168: the fields taken from a non-empty dictionary.\<close>

definition author_of :: "json \<Rightarrow> json \<Rightarrow> json" where
  "author_of old author_data =
     (case author_data of
        JDict a \<Rightarrow> dict_get a ''name''
      | JList (JDict a # _) \<Rightarrow> dict_get a ''name''
      | _ \<Rightarrow> old)"

fun str_items :: "json list \<Rightarrow> string list" where
  "str_items [] = []"
| "str_items (JStr s # xs) = (if strip s \<noteq> [] then s # str_items xs else str_items xs)"
| "str_items (_ # xs) = str_items xs"

definition tags_of :: "string list \<Rightarrow> json \<Rightarrow> string list" where
  "tags_of old keywords =
     (case keywords of
        JStr s \<Rightarrow> filter (\<lambda>t. t \<noteq> []) (map strip (split_on CHR '','' s))
      | JList xs \<Rightarrow> str_items xs
      | _ \<Rightarrow> old)"

definition apply_json_ld :: "ld_script option \<Rightarrow> metadata \<Rightarrow> metadata" where
  "apply_json_ld script m =
     (case script of
        None \<Rightarrow> m
      | Some LoadsRaises \<Rightarrow> m
      | Some (Loaded j) \<Rightarrow>
          (let json_data = select_json_data j in
           if json_data = [] then m
           else m\<lparr>title := dict_get json_data ''headline'',
                  author := author_of (author m) (dict_get json_data ''author''),
                  published_date := dict_get json_data ''datePublished'',
                  tags := tags_of (tags m) (dict_get json_data ''keywords'')\<rparr>))"

text \<open>Lines 175 to 179.\<close>

definition author_fallback :: "soup \<Rightarrow> metadata \<Rightarrow> metadata" where
  "author_fallback sp m =
     (if \<not> truthy (author m) then
        (case find_or (meta_article_author_name sp) (meta_name_author sp) of
           Some (Some c) \<Rightarrow> if c \<noteq> [] then m\<lparr>author := JStr c\<rparr> else m
         | _ \<Rightarrow> m)
      else m)"

text \<open>
  Lines 181 to 197. The date is normalised to \<^verbatim>\<open>YYYY-MM-DD\<close> only here, inside the
  branch taken when no date has been set so far.
\<close>

definition normalize_date ::
  "(string \<Rightarrow> pydate option) \<Rightarrow> (string \<Rightarrow> pydate option) \<Rightarrow> string \<Rightarrow> string" where
  "normalize_date parse_iso parse_long c =
     (case parse_iso (replace_char CHR ''Z'' ''+00:00'' c) of
        Some d \<Rightarrow> strftime_dashed d
      | None \<Rightarrow>
          (case parse_long c of
             Some d \<Rightarrow> strftime_dashed d
           | None \<Rightarrow> c))"

definition date_fallback ::
  "(string \<Rightarrow> pydate option) \<Rightarrow> (string \<Rightarrow> pydate option) \<Rightarrow> soup \<Rightarrow> metadata \<Rightarrow> metadata" where
  "date_fallback parse_iso parse_long sp m =
     (if \<not> truthy (published_date m) then
        (case find_or (meta_article_published_time sp)
                (find_or (meta_og_published_time sp) (meta_cxense_publishtime sp)) of
           Some (Some c) \<Rightarrow>
             if c \<noteq> [] then m\<lparr>published_date := JStr (normalize_date parse_iso parse_long c)\<rparr>
             else m
         | _ \<Rightarrow> m)
      else m)"

text \<open>Lines 200 to 206.\<close>

definition tags_fallback :: "soup \<Rightarrow> metadata \<Rightarrow> metadata" where
  "tags_fallback sp m =
     (let m1 = (if tags m = [] \<and> meta_article_tag sp \<noteq> [] then
                  m\<lparr>tags := concat (map (\<lambda>t. case t of Some c \<Rightarrow> if c \<noteq> [] then [c] else []
                                                       | None \<Rightarrow> []) (meta_article_tag sp))\<rparr>
                else m)
      in m1\<lparr>tags := filter (\<lambda>t. t \<noteq> []) (tags m1)\<rparr>)"

definition extract_metadata_from_post ::
  "(string \<Rightarrow> pydate option) \<Rightarrow> (string \<Rightarrow> pydate option) \<Rightarrow> soup \<Rightarrow> string \<Rightarrow> metadata" where
  "extract_metadata_from_post parse_iso parse_long sp post_url =
     tags_fallback sp
       (date_fallback parse_iso parse_long sp
         (author_fallback sp
           (apply_json_ld (json_ld_script sp)
              \<lparr>title = JNull, author = JNull, published_date = JNull, tags = [], url = post_url\<rparr>)))"

section \<open>The file system and the incremental log\<close>

text \<open>
  The file system is a finite table from paths to what is stored there. Of a regular
  file the model keeps what \<^verbatim>\<open>json.load\<close> makes of it when it is opened in text mode:
  \<^item> \<open>JsonDoc j\<close> is a file whose text parses to \<open>j\<close>;
  \<^item> \<open>PostJson\<close> is the \<^verbatim>\<open>json\<close> output of a post, a dictionary with the keys
    \<^verbatim>\<open>metadata\<close> and \<^verbatim>\<open>content_html\<close>;
  \<^item> \<open>NotJson\<close> is a file that holds text on which \<^verbatim>\<open>json.load\<close> raises
    \<^verbatim>\<open>JSONDecodeError\<close> (the \<^verbatim>\<open>md\<close> and \<^verbatim>\<open>html\<close> outputs, the temporary document);
  \<^item> \<open>NotText\<close> is a file whose bytes are not text in the encoding of the platform, so
    that reading it raises \<^verbatim>\<open>UnicodeDecodeError\<close>. Images and the outputs of the
    document converter are kept under it: they are binary formats, and the program never
    reads them back.
  A later entry for a path is shadowed by an earlier one.
\<close>

datatype entry = Directory | NotJson | NotText | JsonDoc json | PostJson

type_synonym filesystem = "(string \<times> entry) list"

definition lookup :: "filesystem \<Rightarrow> string \<Rightarrow> entry option" where
  "lookup fs p = map_of fs p"

definition path_exists :: "filesystem \<Rightarrow> string \<Rightarrow> bool" where
  "path_exists fs p = (lookup fs p \<noteq> None)"

definition remove_path :: "string \<Rightarrow> filesystem \<Rightarrow> filesystem" where
  "remove_path p fs = filter (\<lambda>(q, f). q \<noteq> p) fs"

text \<open>\<^verbatim>\<open>os.path.join\<close> and \<^verbatim>\<open>os.path.dirname\<close> of \<^verbatim>\<open>posixpath\<close>.\<close>

definition path_join :: "string \<Rightarrow> string \<Rightarrow> string" where
  "path_join a b =
     (if b \<noteq> [] \<and> hd b = CHR ''/'' then b
      else if a = [] \<or> last a = CHR ''/'' then a @ b
      else a @ ''/'' @ b)"

definition dirname :: "string \<Rightarrow> string" where
  "dirname p =
     (let head = rev (dropWhile (\<lambda>c. c \<noteq> CHR ''/'') (rev p)) in
      if head \<noteq> [] \<and> \<not> list_all (\<lambda>c. c = CHR ''/'') head
      then rev (dropWhile (\<lambda>c. c = CHR ''/'') (rev head))
      else head)"

text \<open>
  \<^verbatim>\<open>os.makedirs(p, exist_ok=True)\<close>: afterwards \<open>p\<close> is a directory. It raises on the
  empty path and on a path that is a regular file. The parent directories it also creates
  are not recorded.
\<close>

definition makedirs :: "string \<Rightarrow> filesystem \<Rightarrow> py_exception + filesystem" where
  "makedirs p fs =
     (if p = [] then Inl OSError
      else (case lookup fs p of
              None \<Rightarrow> Inr ((p, Directory) # fs)
            | Some Directory \<Rightarrow> Inr fs
            | Some _ \<Rightarrow> Inl OSError))"

text \<open>
  \<^verbatim>\<open>with open(p, 'w') as f: f.write(...)\<close>. Whether the disk accepts the write is
  the environment's choice: the open may fail (nothing changes), or the write may fail after
  the file was created or truncated, which leaves a part of the content (of a JSON
  document, text that does not parse).
\<close>

fun partial :: "entry \<Rightarrow> entry" where
  "partial NotText = NotText"
| "partial c = NotJson"

datatype write_outcome = WriteOk | OpenFails | WriteFails

definition write_file ::
  "(string \<Rightarrow> write_outcome) \<Rightarrow> string \<Rightarrow> entry \<Rightarrow> filesystem \<Rightarrow> py_exception option \<times> filesystem" where
  "write_file outcome p content fs =
     (if lookup fs p = Some Directory then (Some OSError, fs)
      else (case outcome p of
              WriteOk \<Rightarrow> (None, (p, content) # fs)
            | OpenFails \<Rightarrow> (Some OSError, fs)
            | WriteFails \<Rightarrow> (Some OSError, (p, partial content) # fs)))"

text \<open>
  Logging does not change what the program does; the model records it only for
  \<^verbatim>\<open>load_download_log\<close>, whose warning a claim speaks about.
\<close>

datatype log_level = INFO | WARNING | ERROR

type_synonym log_record = "log_level \<times> string"

text \<open>
  The processed set is a Python \<^verbatim>\<open>set\<close>; the model keeps it as the list of its
  members, no two of them equal in Python's sense, and reads it through \<^const>\<open>set\<close>.
  Its members are whatever the log file lists. \<^verbatim>\<open>set(x)\<close> raises
  \<^verbatim>\<open>TypeError\<close> when \<open>x\<close> is not iterable or has a list or a dictionary among its
  members. Python takes \<^verbatim>\<open>True\<close> and \<^verbatim>\<open>1\<close>, and \<^verbatim>\<open>False\<close> and
  \<^verbatim>\<open>0\<close>, for equal members (\<open>py_key\<close> maps equal members to one key), and a set
  keeps the first of two equal members it is given. The order of the list stands for
  the iteration order of the set, on which nothing below depends.
\<close>

fun hashable :: "json \<Rightarrow> bool" where
  "hashable (JList _) = False"
| "hashable (JDict _) = False"
| "hashable _ = True"

fun py_key :: "json \<Rightarrow> json" where
  "py_key (JBool b) = JNum (if b then 1 else 0)"
| "py_key x = x"

fun set_members :: "json list \<Rightarrow> json list \<Rightarrow> json list" where
  "set_members seen [] = []"
| "set_members seen (x # xs) =
     (if py_key x \<in> set seen then set_members seen xs
      else x # set_members (py_key x # seen) xs)"

definition py_set :: "json \<Rightarrow> py_exception + json list" where
  "py_set x =
     (case x of
        JList xs \<Rightarrow> if list_all hashable xs then Inr (set_members [] xs) else Inl TypeError
      | JStr s \<Rightarrow> Inr (set_members [] (map (\<lambda>c. JStr [c]) s))
      | JDict d \<Rightarrow> Inr (set_members [] (map (\<lambda>(k, v). JStr k) d))
      | _ \<Rightarrow> Inl TypeError)"

definition load_download_log ::
  "filesystem \<Rightarrow> string \<Rightarrow> (py_exception + json list) \<times> log_record list" where
  "load_download_log fs log_file_path =
     (case lookup fs log_file_path of
        None \<Rightarrow> (Inr [], [])
      | Some Directory \<Rightarrow> (Inl OSError, [])
      | Some NotText \<Rightarrow> (Inl UnicodeDecodeError, [])
      | Some NotJson \<Rightarrow>
          (Inr [], [(WARNING, ''Could not parse download log '' @ log_file_path @
                              ''. Starting fresh for this substack.'')])
      | Some PostJson \<Rightarrow> (Inr [], [])
      | Some (JsonDoc data) \<Rightarrow>
          (case data of
             JDict d \<Rightarrow>
               (case map_of d ''processed_urls'' of
                  None \<Rightarrow> (Inr [], [])
                | Some v \<Rightarrow> (py_set v, []))
           | _ \<Rightarrow> (Inl AttributeError, [])))"

text \<open>
  \<^verbatim>\<open>save_to_download_log\<close>: the URL joins the set in memory first, then the directory
  is made and the whole set is written. An exception leaves the set in memory updated.
\<close>

definition set_add :: "json \<Rightarrow> json list \<Rightarrow> json list" where
  "set_add x xs = (if x \<in> set xs then xs else xs @ [x])"

definition log_document :: "json list \<Rightarrow> entry" where
  "log_document processed_urls_set = JsonDoc (JDict [(''processed_urls'', JList processed_urls_set)])"

definition save_to_download_log ::
  "(string \<Rightarrow> write_outcome) \<Rightarrow> string \<Rightarrow> string \<Rightarrow> json list \<Rightarrow> filesystem \<Rightarrow>
     py_exception option \<times> json list \<times> filesystem" where
  "save_to_download_log outcome log_file_path post_url processed_urls_set fs =
     (let added = set_add (JStr post_url) processed_urls_set in
      case makedirs (dirname log_file_path) fs of
        Inl e \<Rightarrow> (Some e, added, fs)
      | Inr fs1 \<Rightarrow>
          (case write_file outcome log_file_path (log_document added) fs1 of
             (r, fs2) \<Rightarrow> (r, added, fs2)))"

section \<open>The environment\<close>

text \<open>
  Everything the program gets from outside is a field of the environment: the answers of the
  network, the library functions whose code is not part of the repository, the clock, and
  whether the disk and the document converter do what they are asked.

  \<^item> \<open>get_archive\<close>, \<open>get_post\<close>, \<open>get_image\<close>: \<^verbatim>\<open>requests.get\<close> followed by
    \<^verbatim>\<open>raise_for_status\<close>, with the body already parsed into what the program reads from it.
    For an archive page these are the \<^verbatim>\<open>href\<close> attributes selected by the narrow and
    by the broad selector; for a post the parsed page and what \<^verbatim>\<open>readability\<close> makes of
    it (title and article fragment, \<open>None\<close> when it raises); for an image the
    \<^verbatim>\<open>content-type\<close> header.
  \<^item> \<open>urljoin\<close>, \<open>netloc\<close>, \<open>url_path\<close>: \<^verbatim>\<open>urllib.parse\<close>.
  \<^item> \<open>splitext_basename\<close>: \<^verbatim>\<open>os.path.splitext(os.path.basename(path))\<close>.
  \<^item> \<open>convert_file\<close>: whether \<^verbatim>\<open>pypandoc.convert_file\<close> returns (or raises).
  \<^item> \<open>time_sleep\<close>: what \<^verbatim>\<open>time.sleep(request_delay)\<close> does. The delay is the
    \<^verbatim>\<open>--delay\<close> setting, handed unchanged to every call of a run (lines 800 and 823),
    so the call does the same each time: it returns (\<open>None\<close>), or it raises, for a
    negative delay or a NaN \<^verbatim>\<open>ValueError\<close>, for a delay too large
    \<^verbatim>\<open>OverflowError\<close>, for a setting that is not a number \<^verbatim>\<open>TypeError\<close>.
\<close>

record archive_page =
  primary_links :: "string option list"
  fallback_links :: "string option list"

text \<open>
  Of an article fragment the model keeps the \<^verbatim>\<open>img\<close> elements in document order, each
  with its \<^verbatim>\<open>src\<close> and its other attributes (kept opaque): the rest of the markup is
  never touched.
\<close>

record img_tag =
  src :: "string option"
  other_attrs :: string

record post_page =
  page_soup :: soup
  readable :: "(string \<times> img_tag list) option"

record env =
  get_archive :: "string \<Rightarrow> py_exception + archive_page"
  get_post :: "string \<Rightarrow> py_exception + post_page"
  get_image :: "string \<Rightarrow> py_exception + string option"
  urljoin :: "string \<Rightarrow> string \<Rightarrow> string"
  netloc :: "string \<Rightarrow> string"
  url_path :: "string \<Rightarrow> string"
  slugify :: "string \<Rightarrow> string"
  splitext_basename :: "string \<Rightarrow> string \<times> string"
  guess_extension :: "string \<Rightarrow> string option"
  fromisoformat :: "string \<Rightarrow> pydate option"
  strptime_long :: "string \<Rightarrow> pydate option"
  today :: pydate
  write_result :: "string \<Rightarrow> write_outcome"
  convert_file :: "string \<Rightarrow> string \<Rightarrow> string \<Rightarrow> bool"
  time_sleep :: "py_exception option"

text \<open>\<^verbatim>\<open>s.startswith(p)\<close> and \<^verbatim>\<open>p in s\<close>.\<close>

fun startswith :: "string \<Rightarrow> string \<Rightarrow> bool" where
  "startswith s [] = True"
| "startswith [] (p # ps) = False"
| "startswith (x # xs) (p # ps) = (x = p \<and> startswith xs ps)"

fun contains :: "string \<Rightarrow> string \<Rightarrow> bool" where
  "contains [] p = (p = [])"
| "contains (x # xs) p = (startswith (x # xs) p \<or> contains xs p)"

section \<open>Archive discovery\<close>

definition archive_url :: "string \<Rightarrow> nat \<Rightarrow> string" where
  "archive_url substack_url page = substack_url @ ''/archive?page='' @ str_nat page"

text \<open>
  Lines 234 to 242: the post URLs of one page. The Python set is kept as a list without
  repetitions.
\<close>

definition link_urls :: "env \<Rightarrow> string \<Rightarrow> string option \<Rightarrow> string list" where
  "link_urls E substack_url href =
     (case href of
        None \<Rightarrow> []
      | Some h \<Rightarrow>
          if h = [] then []
          else (let full_url = urljoin E substack_url h in
                if netloc E full_url = netloc E substack_url \<and> contains (url_path E full_url) ''/p/''
                then [hd (split_on CHR ''?'' full_url)]
                else []))"

definition current_page_urls :: "env \<Rightarrow> string \<Rightarrow> string option list \<Rightarrow> string list" where
  "current_page_urls E substack_url links_on_page =
     remdups (concat (map (link_urls E substack_url) links_on_page))"

definition links_on_page :: "archive_page \<Rightarrow> string option list" where
  "links_on_page pg = (if primary_links pg \<noteq> [] then primary_links pg else fallback_links pg)"

text \<open>
  The \<^verbatim>\<open>while True\<close> loop of \<^verbatim>\<open>get_all_post_urls\<close>. Nothing in the loop bounds the
  number of pages, so the model is a partial function: \<open>None\<close> means that the loop never
  leaves. Every exception handler of the loop ends in \<^verbatim>\<open>break\<close>, also for an
  exception of the \<^verbatim>\<open>time.sleep\<close> of line 256, which comes after the new URLs have
  joined the set.
\<close>

partial_function (option) archive_loop :: "env \<Rightarrow> string \<Rightarrow> nat \<Rightarrow> string list \<Rightarrow> string list option" where
  "archive_loop E substack_url page all_post_urls =
     (case get_archive E (archive_url substack_url page) of
        Inl e \<Rightarrow> Some all_post_urls
      | Inr pg \<Rightarrow>
          if links_on_page pg = [] then Some all_post_urls
          else if current_page_urls E substack_url (links_on_page pg) = [] then Some all_post_urls
          else if filter (\<lambda>u. u \<notin> set all_post_urls)
                    (current_page_urls E substack_url (links_on_page pg)) = []
               then Some all_post_urls
          else (case time_sleep E of
                  Some e \<Rightarrow>
                    Some (all_post_urls @ filter (\<lambda>u. u \<notin> set all_post_urls)
                            (current_page_urls E substack_url (links_on_page pg)))
                | None \<Rightarrow>
                    archive_loop E substack_url (Suc page)
                      (all_post_urls @ filter (\<lambda>u. u \<notin> set all_post_urls)
                         (current_page_urls E substack_url (links_on_page pg)))))"

declare archive_loop.simps [code]

definition get_all_post_urls :: "env \<Rightarrow> string \<Rightarrow> string list option" where
  "get_all_post_urls E substack_url = archive_loop E substack_url 1 []"

section \<open>Image localisation\<close>

text \<open>
  \<^verbatim>\<open>os.remove\<close> raises on a missing path and on a directory.
\<close>

definition os_remove :: "string \<Rightarrow> filesystem \<Rightarrow> py_exception + filesystem" where
  "os_remove p fs =
     (case lookup fs p of
        None \<Rightarrow> Inl OSError
      | Some Directory \<Rightarrow> Inl OSError
      | Some _ \<Rightarrow> Inr (remove_path p fs))"

text \<open>
  Lines 330 to 334: the loop that looks for a free file name. The file system is finite and
  the candidate names differ from one another, so the loop ends; the proof needs that
  \<^const>\<open>str_nat\<close> is injective.
\<close>

lemma digit_char_inj: "a < 10 \<Longrightarrow> b < 10 \<Longrightarrow> digit_char a = digit_char b \<Longrightarrow> a = b"
proof -
  assume a: "a < 10" and b: "b < 10" and e: "digit_char a = digit_char b"
  have d: "distinct ''0123456789''" by simp
  have "length ''0123456789'' = 10" by simp
  with a b e d show "a = b"
    unfolding digit_char_def by (metis nth_eq_iff_index_eq)
qed

lemma str_nat_not_Nil: "str_nat n \<noteq> []"
  by (subst str_nat.simps) simp

lemma str_nat_inj: "str_nat n = str_nat m \<Longrightarrow> n = m"
proof (induction n arbitrary: m rule: str_nat.induct)
  case (1 n)
  show ?case
  proof (cases "n < 10")
    case True
    have "m < 10"
    proof (rule ccontr)
      assume "\<not> m < 10"
      then have "str_nat m = str_nat (m div 10) @ [digit_char (m mod 10)]"
        by (subst str_nat.simps) simp
      moreover have "str_nat n = [digit_char n]" using True by (subst str_nat.simps) simp
      ultimately show False using "1.prems" str_nat_not_Nil [of "m div 10"] by simp
    qed
    moreover have "str_nat n = [digit_char n]" using True by (subst str_nat.simps) simp
    moreover have "str_nat m = [digit_char m]" using \<open>m < 10\<close> by (subst str_nat.simps) simp
    ultimately show ?thesis using True "1.prems" digit_char_inj by simp
  next
    case False
    then have n: "str_nat n = str_nat (n div 10) @ [digit_char (n mod 10)]"
      by (subst str_nat.simps) simp
    have "\<not> m < 10"
    proof
      assume "m < 10"
      then have "str_nat m = [digit_char m]" by (subst str_nat.simps) simp
      with n "1.prems" show False using str_nat_not_Nil [of "n div 10"] by simp
    qed
    then have m: "str_nat m = str_nat (m div 10) @ [digit_char (m mod 10)]"
      by (subst str_nat.simps) simp
    from n m "1.prems" have e1: "str_nat (n div 10) = str_nat (m div 10)"
      and e2: "digit_char (n mod 10) = digit_char (m mod 10)" by simp_all
    from "1.IH" [OF False e1] have "n div 10 = m div 10" .
    moreover from e2 have "n mod 10 = m mod 10" by (intro digit_char_inj) simp_all
    ultimately show ?thesis by (metis div_mult_mod_eq)
  qed
qed

definition candidate :: "string \<Rightarrow> string \<Rightarrow> nat \<Rightarrow> string" where
  "candidate safe_filename_base image_ext counter =
     safe_filename_base @ ''_'' @ str_nat counter @ image_ext"

lemma path_join_same_head:
  "b \<noteq> [] \<Longrightarrow> c \<noteq> [] \<Longrightarrow> hd b = hd c \<Longrightarrow> path_join a b = path_join a c \<Longrightarrow> b = c"
  by (auto simp: path_join_def split: if_splits)

lemma candidate_inj:
  "path_join d (candidate b e i) = path_join d (candidate b e j) \<Longrightarrow> i = j"
proof -
  assume eq: "path_join d (candidate b e i) = path_join d (candidate b e j)"
  have "hd (candidate b e i) = hd (candidate b e j)"
    by (cases b) (simp_all add: candidate_def)
  moreover have "candidate b e i \<noteq> []" "candidate b e j \<noteq> []" by (simp_all add: candidate_def)
  ultimately have "candidate b e i = candidate b e j" using eq path_join_same_head by blast
  then show "i = j" by (simp add: candidate_def str_nat_inj)
qed

lemma finite_taken_candidates:
  "finite {k. path_exists fs (path_join d (candidate b e k))}"
proof -
  have "{k. path_exists fs (path_join d (candidate b e k))}
          \<subseteq> (\<lambda>k. path_join d (candidate b e k)) -` (fst ` set fs)"
    by (auto simp: path_exists_def lookup_def map_of_eq_None_iff)
  moreover have "finite ((\<lambda>k. path_join d (candidate b e k)) -` (fst ` set fs))"
    by (rule finite_vimageI) (auto intro!: injI dest: candidate_inj)
  ultimately show ?thesis by (rule finite_subset)
qed

function unique_filename ::
  "filesystem \<Rightarrow> string \<Rightarrow> string \<Rightarrow> string \<Rightarrow> string \<Rightarrow> nat \<Rightarrow> string" where
  "unique_filename fs save_dir safe_filename_base image_ext local_image_filename counter =
     (if path_exists fs (path_join save_dir local_image_filename)
      then unique_filename fs save_dir safe_filename_base image_ext
             (candidate safe_filename_base image_ext counter) (Suc counter)
      else local_image_filename)"
  by pat_completeness auto
termination
proof (relation "measure (\<lambda>(fs, d, b, e, name, counter).
         2 * card {k. counter \<le> k \<and> path_exists fs (path_join d (candidate b e k))}
         + (if path_exists fs (path_join d name) then 1 else 0))")
  show "wf (measure (\<lambda>(fs, d, b, e, name, counter).
         2 * card {k. counter \<le> k \<and> path_exists fs (path_join d (candidate b e k))}
         + (if path_exists fs (path_join d name) then 1 else 0)))" by simp
next
  fix fs :: filesystem and d b e name :: string and counter :: nat
  assume ex: "path_exists fs (path_join d name)"
  let ?A = "{k. counter \<le> k \<and> path_exists fs (path_join d (candidate b e k))}"
  let ?B = "{k. Suc counter \<le> k \<and> path_exists fs (path_join d (candidate b e k))}"
  have fin: "finite ?A" by (rule finite_subset [OF _ finite_taken_candidates [of fs d b e]]) auto
  show "((fs, d, b, e, candidate b e counter, Suc counter), (fs, d, b, e, name, counter))
        \<in> measure (\<lambda>(fs, d, b, e, name, counter).
         2 * card {k. counter \<le> k \<and> path_exists fs (path_join d (candidate b e k))}
         + (if path_exists fs (path_join d name) then 1 else 0))"
  proof (cases "path_exists fs (path_join d (candidate b e counter))")
    case True
    then have "counter \<in> ?A" "counter \<notin> ?B" "?B \<subseteq> ?A" by auto
    then have "?B \<subset> ?A" by blast
    then have "card ?B < card ?A" using fin by (rule psubset_card_mono [rotated])
    then show ?thesis using ex True by simp
  next
    case False
    have "?B = ?A" using False by (auto simp: Suc_le_eq le_less)
    then show ?thesis using ex False by simp
  qed
qed

declare unique_filename.simps [simp del]

text \<open>
  \<^verbatim>\<open>images_found.index(img_tag)\<close>: the position of the first element equal to the tag
  (elements compare by name and attributes).
\<close>

fun first_index :: "'a list \<Rightarrow> 'a \<Rightarrow> nat" where
  "first_index [] x = 0"
| "first_index (y # ys) x = (if y = x then 0 else Suc (first_index ys x))"

text \<open>
  Lines 300 to 353: one pass of the loop over the images. Both handlers of the
  \<^verbatim>\<open>try\<close> log and go on with the next image, so nothing raised here leaves the loop.
\<close>

definition image_extension :: "env \<Rightarrow> string \<Rightarrow> string option \<Rightarrow> string" where
  "image_extension E ext_from_url content_type =
     (let ext_from_content_type =
            (case content_type of
               None \<Rightarrow> None
             | Some ct \<Rightarrow> if ct = [] then None else guess_extension E ct);
          image_ext =
            (if ext_from_url \<noteq> [] then ext_from_url
             else (case ext_from_content_type of
                     Some e \<Rightarrow> if e \<noteq> [] then e else ''.jpg''
                   | None \<Rightarrow> ''.jpg''))
      in if startswith image_ext ''.'' then image_ext else ''.'' @ image_ext)"

definition localize_image ::
  "env \<Rightarrow> string \<Rightarrow> string \<Rightarrow> string \<Rightarrow> string \<Rightarrow> nat \<Rightarrow> img_tag \<Rightarrow> filesystem \<Rightarrow> img_tag \<times> filesystem" where
  "localize_image E base_url save_dir_for_post_assets post_slug assets_dir_name_param idx img fs =
     (case src img of
        None \<Rightarrow> (img, fs)
      | Some original_src \<Rightarrow>
          if original_src = [] then (img, fs)
          else (let img_url = urljoin E base_url original_src in
            if startswith img_url ''data:'' then (img, fs)
            else (case get_image E img_url of
                Inl e \<Rightarrow> (img, fs)
              | Inr content_type \<Rightarrow>
                  (let (filename_base, ext_from_url) = splitext_basename E (url_path E img_url);
                       image_ext = image_extension E ext_from_url content_type;
                       safe_filename_base =
                         (if filename_base \<noteq> [] then slugify E filename_base
                          else ''image_'' @ str_nat idx);
                       local_image_filename =
                         unique_filename fs save_dir_for_post_assets safe_filename_base image_ext
                           (safe_filename_base @ image_ext) 1;
                       local_image_path = path_join save_dir_for_post_assets local_image_filename
                   in (case write_file (write_result E) local_image_path NotText fs of
                         (Some e, fs') \<Rightarrow> (img, fs')
                       | (None, fs') \<Rightarrow>
                           (img\<lparr>src := Some (path_join (path_join assets_dir_name_param post_slug)
                                                local_image_filename)\<rparr>, fs'))))))"

fun localize_images ::
  "env \<Rightarrow> string \<Rightarrow> string \<Rightarrow> string \<Rightarrow> string \<Rightarrow> img_tag list \<Rightarrow> img_tag list \<Rightarrow> filesystem \<Rightarrow>
     img_tag list \<times> filesystem" where
  "localize_images E base_url save_dir post_slug assets_dir seen [] fs = (seen, fs)"
| "localize_images E base_url save_dir post_slug assets_dir seen (img # rest) fs =
     (case localize_image E base_url save_dir post_slug assets_dir
             (first_index (seen @ img # rest) img) img fs of
        (img', fs') \<Rightarrow>
          localize_images E base_url save_dir post_slug assets_dir (seen @ [img']) rest fs')"

text \<open>
  \<^verbatim>\<open>download_images_and_rewrite_paths\<close>: with no image the fragment comes back as it is;
  otherwise the directory is made (line 297) and then the images are gone through. Only
  \<^verbatim>\<open>os.makedirs\<close> can raise out of the function.
\<close>

definition download_images_and_rewrite_paths ::
  "env \<Rightarrow> img_tag list \<Rightarrow> string \<Rightarrow> string \<Rightarrow> string \<Rightarrow> string \<Rightarrow> filesystem \<Rightarrow>
     py_exception + img_tag list \<times> filesystem" where
  "download_images_and_rewrite_paths E images_found base_url save_dir_for_post_assets post_slug
       assets_dir_name_param fs =
     (if images_found = [] then Inr (images_found, fs)
      else (case makedirs save_dir_for_post_assets fs of
              Inl e \<Rightarrow> Inl e
            | Inr fs1 \<Rightarrow>
                Inr (localize_images E base_url save_dir_for_post_assets post_slug
                       assets_dir_name_param [] images_found fs1)))"

section \<open>Processing one post\<close>

text \<open>
  The state the program works on: the file system, the processed set that
  \<^verbatim>\<open>cli\<close> hands to \<^verbatim>\<open>process_single_post\<close> (one Python object, updated in place),
  and, as a record of what was done, the post URLs requested from the network so far.
\<close>

record state =
  files :: filesystem
  processed :: "json list"
  fetched :: "string list"

text \<open>Lines 582 to 591: the title. \<^verbatim>\<open>len\<close> raises on a number or a boolean.\<close>

definition py_len :: "json \<Rightarrow> py_exception + nat" where
  "py_len v =
     (case v of
        JStr s \<Rightarrow> Inr (length s)
      | JList xs \<Rightarrow> Inr (length xs)
      | JDict d \<Rightarrow> Inr (length d)
      | _ \<Rightarrow> Inl TypeError)"

definition choose_title :: "json \<Rightarrow> string \<Rightarrow> py_exception + json" where
  "choose_title t content_title =
     (case (if \<not> truthy t then Inr (JStr content_title)
            else if content_title = [] then Inr t
            else (case py_len t of
                    Inl e \<Rightarrow> Inl e
                  | Inr n \<Rightarrow> if length content_title > n then Inr (JStr content_title) else Inr t)) of
        Inl e \<Rightarrow> Inl e
      | Inr t1 \<Rightarrow> if \<not> truthy t1 then Inr (JStr ''Untitled Post'') else Inr t1)"

text \<open>\<^verbatim>\<open>slugify\<close> takes text; on any other value it raises.\<close>

definition py_slugify :: "env \<Rightarrow> json \<Rightarrow> py_exception + string" where
  "py_slugify E v = (case v of JStr s \<Rightarrow> Inr (slugify E s) | _ \<Rightarrow> Inl TypeError)"

text \<open>Lines 595 to 597.\<close>

definition post_assets_slug_of :: "env \<Rightarrow> json \<Rightarrow> string \<Rightarrow> py_exception + string" where
  "post_assets_slug_of E t url_slug =
     (case (if truthy t \<and> t \<noteq> JStr ''Untitled Post'' then py_slugify E t else Inr url_slug) of
        Inl e \<Rightarrow> Inl e
      | Inr s \<Rightarrow> if s = [] then Inr (''post_'' @ url_slug) else Inr s)"

text \<open>
  Lines 603 to 612: the date in the file name. The key \<^verbatim>\<open>published_date\<close> is always
  in the dictionary, so \<^verbatim>\<open>metadata.get\<close> never takes its default; on a value that is not
  text, \<^verbatim>\<open>.split\<close> raises \<^verbatim>\<open>AttributeError\<close>, which the handler for
  \<^verbatim>\<open>ValueError\<close> does not catch.
\<close>

definition formatted_date_prefix_of :: "env \<Rightarrow> json \<Rightarrow> py_exception + string" where
  "formatted_date_prefix_of E date_prefix =
     (case date_prefix of
        JStr s \<Rightarrow>
          (case fromisoformat E (hd (split_on CHR ''T'' s)) of
             Some d \<Rightarrow> Inr (strftime_compact d)
           | None \<Rightarrow>
               if length (split_on CHR ''-'' s) = 3 then Inr (replace_char CHR ''-'' [] s)
               else Inr (strftime_compact (today E)))
      | _ \<Rightarrow> Inl AttributeError)"

text \<open>Line 614.\<close>

definition clean_slug_of :: "env \<Rightarrow> json \<Rightarrow> string \<Rightarrow> py_exception + string" where
  "clean_slug_of E t url_slug = (if truthy t then py_slugify E t else Inr url_slug)"

text \<open>
  Lines 639 to 717: the \<^verbatim>\<open>pdf\<close> and \<^verbatim>\<open>epub\<close> branch. \<open>handle_conversion_error\<close> is
  the \<^verbatim>\<open>except Exception\<close> block, which removes the temporary file and goes on with the
  next format; an exception raised inside that block leaves the loop.
\<close>

datatype conversion = Converted | ConversionSkipped | Raised py_exception

definition temp_html_path_of :: "string \<Rightarrow> string \<Rightarrow> string \<Rightarrow> string" where
  "temp_html_path_of output_dir formatted_date_prefix clean_slug =
     path_join output_dir (formatted_date_prefix @ ''_'' @ clean_slug @ ''_temp.html'')"

definition handle_conversion_error :: "string \<Rightarrow> filesystem \<Rightarrow> conversion \<times> filesystem" where
  "handle_conversion_error temp_html_path fs =
     (if temp_html_path \<noteq> [] \<and> path_exists fs temp_html_path then
        (case os_remove temp_html_path fs of
           Inl e \<Rightarrow> (Raised e, fs)
         | Inr fs' \<Rightarrow> (ConversionSkipped, fs'))
      else (ConversionSkipped, fs))"

definition convert_with_pandoc ::
  "env \<Rightarrow> string \<Rightarrow> string \<Rightarrow> string \<Rightarrow> string \<Rightarrow> string \<Rightarrow> filesystem \<Rightarrow> conversion \<times> filesystem" where
  "convert_with_pandoc E output_dir formatted_date_prefix clean_slug fmt filepath fs =
     (let temp_html_path = temp_html_path_of output_dir formatted_date_prefix clean_slug in
      case write_file (write_result E) temp_html_path NotJson fs of
        (Some e, fs1) \<Rightarrow> handle_conversion_error temp_html_path fs1
      | (None, fs1) \<Rightarrow>
          if convert_file E temp_html_path fmt filepath \<and> lookup fs1 filepath \<noteq> Some Directory then
            (let fs2 = (filepath, NotText) # fs1 in
             if temp_html_path \<noteq> [] \<and> path_exists fs2 temp_html_path then
               (case os_remove temp_html_path fs2 of
                  Inl e \<Rightarrow> handle_conversion_error temp_html_path fs2
                | Inr fs3 \<Rightarrow> (Converted, fs3))
             else (Converted, fs2))
          else handle_conversion_error temp_html_path fs1)"

text \<open>
  Lines 616 to 726: the loop over the formats. The result \<open>Some e\<close> is an exception that
  leaves the loop; \<open>None\<close> means that the loop ran to its end.
\<close>

definition output_path :: "string \<Rightarrow> string \<Rightarrow> string \<Rightarrow> string \<Rightarrow> string" where
  "output_path output_dir formatted_date_prefix clean_slug fmt =
     path_join output_dir (formatted_date_prefix @ ''_'' @ clean_slug @ ''.'' @ fmt)"

fun save_formats ::
  "env \<Rightarrow> string \<Rightarrow> string \<Rightarrow> string \<Rightarrow> string list \<Rightarrow> filesystem \<Rightarrow> py_exception option \<times> filesystem" where
  "save_formats E output_dir formatted_date_prefix clean_slug [] fs = (None, fs)"
| "save_formats E output_dir formatted_date_prefix clean_slug (fmt # rest) fs =
     (let filepath = output_path output_dir formatted_date_prefix clean_slug fmt in
      case makedirs (dirname filepath) fs of
        Inl e \<Rightarrow> (Some e, fs)
      | Inr fs1 \<Rightarrow>
          if fmt = ''md'' \<or> fmt = ''html'' \<or> fmt = ''json'' then
            (case write_file (write_result E) filepath (if fmt = ''json'' then PostJson else NotJson) fs1 of
               (Some e, fs2) \<Rightarrow> (Some e, fs2)
             | (None, fs2) \<Rightarrow> save_formats E output_dir formatted_date_prefix clean_slug rest fs2)
          else if fmt = ''pdf'' \<or> fmt = ''epub'' then
            (case makedirs (dirname filepath) fs1 of
               Inl e \<Rightarrow> (Some e, fs1)
             | Inr fs2 \<Rightarrow>
                 (case convert_with_pandoc E output_dir formatted_date_prefix clean_slug fmt filepath fs2 of
                    (Raised e, fs3) \<Rightarrow> (Some e, fs3)
                  | (_, fs3) \<Rightarrow> save_formats E output_dir formatted_date_prefix clean_slug rest fs3))
          else save_formats E output_dir formatted_date_prefix clean_slug rest fs1)"

text \<open>
  Lines 572 to 732: the body of the \<^verbatim>\<open>try\<close> of \<^verbatim>\<open>process_single_post\<close>, in the order
  of the source: fetch, metadata, title, slugs, images, date prefix, formats, the pause of
  line 728, log. \<open>Some e\<close> is an exception arriving at the handlers of lines 734 to 737.
\<close>

definition log_step ::
  "env \<Rightarrow> bool \<Rightarrow> string option \<Rightarrow> string \<Rightarrow> state \<Rightarrow> py_exception option \<times> state" where
  "log_step E incremental_flag download_log_path post_url st =
     (if incremental_flag then
        (case download_log_path of
           None \<Rightarrow> (Some TypeError, st\<lparr>processed := set_add (JStr post_url) (processed st)\<rparr>)
         | Some log_file_path \<Rightarrow>
             (case save_to_download_log (write_result E) log_file_path post_url (processed st) (files st) of
                (r, added, fs') \<Rightarrow> (r, st\<lparr>files := fs', processed := added\<rparr>)))
      else (None, st))"

definition render_step ::
  "env \<Rightarrow> metadata \<Rightarrow> string \<Rightarrow> string \<Rightarrow> string list \<Rightarrow> state \<Rightarrow> py_exception option \<times> state" where
  "render_step E m url_slug output_dir formats_to_save st =
     (case formatted_date_prefix_of E (published_date m) of
        Inl e \<Rightarrow> (Some e, st)
      | Inr formatted_date_prefix \<Rightarrow>
          (case clean_slug_of E (title m) url_slug of
             Inl e \<Rightarrow> (Some e, st)
           | Inr clean_slug \<Rightarrow>
               (case save_formats E output_dir formatted_date_prefix clean_slug formats_to_save (files st) of
                  (r, fs') \<Rightarrow> (r, st\<lparr>files := fs'\<rparr>))))"

definition images_step ::
  "env \<Rightarrow> bool \<Rightarrow> img_tag list \<Rightarrow> string \<Rightarrow> string \<Rightarrow> string \<Rightarrow> string \<Rightarrow> state \<Rightarrow>
     py_exception option \<times> state" where
  "images_step E download_images_flag content_html_summary post_url output_dir config_assets_dir_name
       post_assets_slug st =
     (if download_images_flag then
        (case download_images_and_rewrite_paths E content_html_summary post_url
                (path_join (path_join output_dir config_assets_dir_name) post_assets_slug)
                post_assets_slug config_assets_dir_name (files st) of
           Inl e \<Rightarrow> (Some e, st)
         | Inr (rewritten, fs') \<Rightarrow> (None, st\<lparr>files := fs'\<rparr>))
      else (None, st))"

definition url_slug_of :: "string \<Rightarrow> string" where
  "url_slug_of post_url = take 100 (last (split_on CHR ''/'' post_url))"

definition post_metadata :: "env \<Rightarrow> post_page \<Rightarrow> string \<Rightarrow> py_exception + metadata \<times> img_tag list" where
  "post_metadata E pg post_url =
     (let m = extract_metadata_from_post (fromisoformat E) (strptime_long E) (page_soup pg) post_url in
      case readable pg of
        None \<Rightarrow> Inl OtherException
      | Some (content_title, content_html_summary) \<Rightarrow>
          (case choose_title (title m) content_title of
             Inl e \<Rightarrow> Inl e
           | Inr t \<Rightarrow> Inr (m\<lparr>title := t\<rparr>, content_html_summary)))"

definition process_post_body ::
  "env \<Rightarrow> string \<Rightarrow> string \<Rightarrow> string list \<Rightarrow> bool \<Rightarrow> string \<Rightarrow> bool \<Rightarrow> string option \<Rightarrow> state \<Rightarrow>
     py_exception option \<times> state" where
  "process_post_body E post_url output_dir formats_to_save download_images_flag config_assets_dir_name
       incremental_flag download_log_path st =
     (let st1 = st\<lparr>fetched := fetched st @ [post_url]\<rparr> in
      case get_post E post_url of
        Inl e \<Rightarrow> (Some e, st1)
      | Inr pg \<Rightarrow>
          (case post_metadata E pg post_url of
             Inl e \<Rightarrow> (Some e, st1)
           | Inr (m, content_html_summary) \<Rightarrow>
               (case post_assets_slug_of E (title m) (url_slug_of post_url) of
                  Inl e \<Rightarrow> (Some e, st1)
                | Inr post_assets_slug \<Rightarrow>
                    (case images_step E download_images_flag content_html_summary post_url output_dir
                            config_assets_dir_name post_assets_slug st1 of
                       (Some e, st2) \<Rightarrow> (Some e, st2)
                     | (None, st2) \<Rightarrow>
                         (case render_step E m (url_slug_of post_url) output_dir formats_to_save st2 of
                            (Some e, st3) \<Rightarrow> (Some e, st3)
                          | (None, st3) \<Rightarrow>
                              (case time_sleep E of
                                 Some e \<Rightarrow> (Some e, st3)
                               | None \<Rightarrow>
                                   log_step E incremental_flag download_log_path post_url st3))))))"

text \<open>
  \<^verbatim>\<open>process_single_post\<close> (line 559): the skip test, then the body under the two
  handlers, which log and fall through to \<^verbatim>\<open>return False\<close>.
\<close>

definition process_single_post ::
  "env \<Rightarrow> string \<Rightarrow> string \<Rightarrow> string list \<Rightarrow> bool \<Rightarrow> string \<Rightarrow> bool \<Rightarrow> string option \<Rightarrow> state \<Rightarrow>
     bool \<times> state" where
  "process_single_post E post_url output_dir formats_to_save download_images_flag config_assets_dir_name
       incremental_flag download_log_path st =
     (if incremental_flag \<and> JStr post_url \<in> set (processed st) then (True, st)
      else (case process_post_body E post_url output_dir formats_to_save download_images_flag
                   config_assets_dir_name incremental_flag download_log_path st of
              (None, st') \<Rightarrow> (True, st')
            | (Some e, st') \<Rightarrow> (False, st')))"

section \<open>The orchestrator\<close>

record counts =
  successful_downloads :: nat
  skipped_downloads :: nat
  failed_downloads :: nat

text \<open>Lines 809 to 833: the loop of \<^verbatim>\<open>cli\<close> over the post URLs of one Substack.\<close>

fun post_loop ::
  "env \<Rightarrow> string \<Rightarrow> string list \<Rightarrow> bool \<Rightarrow> string \<Rightarrow> bool \<Rightarrow> string option \<Rightarrow> string list \<Rightarrow>
     counts \<times> state \<Rightarrow> counts \<times> state" where
  "post_loop E current_output_dir formats_to_save download_images_flag config_assets_dir_name
       incremental_flag download_log_file [] cs = cs"
| "post_loop E current_output_dir formats_to_save download_images_flag config_assets_dir_name
       incremental_flag download_log_file (post_url # rest) (c, st) =
     (if incremental_flag \<and> JStr post_url \<in> set (processed st) then
        post_loop E current_output_dir formats_to_save download_images_flag config_assets_dir_name
          incremental_flag download_log_file rest
          (c\<lparr>skipped_downloads := skipped_downloads c + 1\<rparr>, st)
      else (case process_single_post E post_url current_output_dir formats_to_save download_images_flag
                   config_assets_dir_name incremental_flag download_log_file st of
              (success, st') \<Rightarrow>
                post_loop E current_output_dir formats_to_save download_images_flag
                  config_assets_dir_name incremental_flag download_log_file rest
                  (if success then c\<lparr>successful_downloads := successful_downloads c + 1\<rparr>
                   else c\<lparr>failed_downloads := failed_downloads c + 1\<rparr>, st')))"

text \<open>
  The arguments \<^verbatim>\<open>cli\<close> works with, as \<^verbatim>\<open>init_argparse\<close> returns them
  (\<^verbatim>\<open>delay\<close> only feeds \<^verbatim>\<open>time.sleep\<close> and is left out).
\<close>

record args =
  substack_urls :: "string list"
  formats :: string
  output_dir :: string
  download_images :: bool
  incremental :: bool
  assets_dir_name :: string

definition lower_char :: "char \<Rightarrow> char" where
  "lower_char c = (let n = (of_char c :: nat) in if 65 \<le> n \<and> n \<le> 90 then char_of (n + 32) else c)"

definition formats_to_save_of :: "string \<Rightarrow> string list" where
  "formats_to_save_of fs = map (\<lambda>f. map lower_char (strip f)) (split_on CHR '','' fs)"

definition rstrip_slash :: "string \<Rightarrow> string" where
  "rstrip_slash s = rev (dropWhile (\<lambda>c. c = CHR ''/'') (rev s))"

text \<open>Lines 771 to 779.\<close>

definition current_output_dir_of :: "env \<Rightarrow> args \<Rightarrow> nat \<Rightarrow> string \<Rightarrow> string" where
  "current_output_dir_of E a substack_idx current_substack_url =
     (if length (substack_urls a) > 1 then
        (let substack_domain = netloc E current_substack_url;
             substack_slug = (if substack_domain \<noteq> [] then slugify E substack_domain
                              else ''substack_'' @ str_nat (substack_idx + 1))
         in path_join (output_dir a) substack_slug)
      else output_dir a)"

text \<open>
  Lines 762 to 836: what \<^verbatim>\<open>cli\<close> does for one Substack. The result is \<open>None\<close> when
  the archive walk never ends, \<open>Some (Inl e)\<close> when an exception leaves \<^verbatim>\<open>cli\<close>
  (\<^verbatim>\<open>os.makedirs\<close> and \<^verbatim>\<open>load_download_log\<close> are called outside any \<^verbatim>\<open>try\<close>),
  and otherwise the three counters of the summary, the file system, and the post URLs
  requested.
\<close>

definition process_substack ::
  "env \<Rightarrow> args \<Rightarrow> nat \<Rightarrow> string \<Rightarrow> filesystem \<Rightarrow> (py_exception + counts \<times> filesystem \<times> string list) option" where
  "process_substack E a substack_idx current_substack_url fs =
     (let zero = \<lparr>successful_downloads = 0, skipped_downloads = 0, failed_downloads = 0\<rparr> in
      if current_substack_url = [] then Some (Inr (zero, fs, []))
      else
        (let current_output_dir = current_output_dir_of E a substack_idx current_substack_url in
         case makedirs current_output_dir fs of
           Inl e \<Rightarrow> Some (Inl e)
         | Inr fs1 \<Rightarrow>
             (let download_log_file =
                    (if incremental a then Some (path_join current_output_dir ''.download_log.json'')
                     else None)
              in case (case download_log_file of
                         None \<Rightarrow> Inr []
                       | Some p \<Rightarrow> fst (load_download_log fs1 p)) of
                   Inl e \<Rightarrow> Some (Inl e)
                 | Inr processed_urls_for_this_substack \<Rightarrow>
                     (case get_all_post_urls E (rstrip_slash current_substack_url @ ''/'') of
                        None \<Rightarrow> None
                      | Some all_post_urls \<Rightarrow>
                          (case post_loop E current_output_dir (formats_to_save_of (formats a))
                                  (download_images a) (assets_dir_name a) (incremental a)
                                  download_log_file all_post_urls
                                  (zero, \<lparr>files = fs1, processed = processed_urls_for_this_substack,
                                          fetched = []\<rparr>) of
                             (c, st) \<Rightarrow> Some (Inr (c, files st, fetched st)))))))"

section \<open>A concrete environment\<close>

text \<open>
  A small world on which the theorems below are tried: two Substacks with one post each.
  The post of \<^verbatim>\<open>demo.substack.com\<close> carries the structured data of the specification's
  example and one image; the post of \<^verbatim>\<open>undated.substack.com\<close> names no date anywhere.
  The second archive page of either Substack lists the same post as the first. The library
  functions are given on the inputs that occur here. The document converter makes
  \<^verbatim>\<open>epub\<close> files and fails on \<^verbatim>\<open>pdf\<close>.
\<close>

definition demo_json_ld :: json where
  "demo_json_ld = JDict
     [(''headline'', JStr ''T''),
      (''author'', JDict [(''name'', JStr ''A'')]),
      (''datePublished'', JStr ''2023-01-01T12:00:00Z''),
      (''keywords'', JStr ''x, y'')]"

definition empty_soup :: soup where
  "empty_soup = \<lparr>json_ld_script = None, meta_article_author_name = None, meta_name_author = None,
     meta_article_published_time = None, meta_og_published_time = None,
     meta_cxense_publishtime = None, meta_article_tag = []\<rparr>"

definition demo_fromisoformat :: "string \<Rightarrow> pydate option" where
  "demo_fromisoformat s =
     (if s = ''2023-01-01'' \<or> s = ''2023-01-01T12:00:00+00:00''
      then Some \<lparr>year = 2023, month = 1, day = 1\<rparr> else None)"

definition demo_strptime :: "string \<Rightarrow> pydate option" where
  "demo_strptime s =
     (if s = ''Sunday, January 01, 2023'' then Some \<lparr>year = 2023, month = 1, day = 1\<rparr> else None)"

definition demo_image :: img_tag where
  "demo_image = \<lparr>src = Some ''https://cdn.demo.com/pic.png'', other_attrs = ''alt=pic''\<rparr>"

definition demo_post :: post_page where
  "demo_post = \<lparr>page_soup = empty_soup\<lparr>json_ld_script := Some (Loaded demo_json_ld)\<rparr>,
                 readable = Some (''T'', [demo_image])\<rparr>"

definition undated_post :: post_page where
  "undated_post = \<lparr>page_soup = empty_soup, readable = Some (''Notes'', [])\<rparr>"

definition demo_get_archive :: "string \<Rightarrow> py_exception + archive_page" where
  "demo_get_archive u =
     (if u = ''https://demo.substack.com//archive?page=1'' \<or>
         u = ''https://demo.substack.com//archive?page=2''
      then Inr \<lparr>primary_links = [], fallback_links = [Some ''https://demo.substack.com/p/first'']\<rparr>
      else if u = ''https://undated.substack.com//archive?page=1'' \<or>
              u = ''https://undated.substack.com//archive?page=2''
      then Inr \<lparr>primary_links = [Some ''https://undated.substack.com/p/notes?utm=1''],
                fallback_links = []\<rparr>
      else Inl (HTTPError 404))"

definition demo_get_post :: "string \<Rightarrow> py_exception + post_page" where
  "demo_get_post u =
     (if u = ''https://demo.substack.com/p/first'' then Inr demo_post
      else if u = ''https://undated.substack.com/p/notes'' then Inr undated_post
      else Inl (HTTPError 404))"

definition demo_get_image :: "string \<Rightarrow> py_exception + string option" where
  "demo_get_image u =
     (if u = ''https://cdn.demo.com/pic.png'' then Inr (Some ''image/png'') else Inl (HTTPError 404))"

definition demo_urljoin :: "string \<Rightarrow> string \<Rightarrow> string" where
  "demo_urljoin base h = (if startswith h ''https://'' \<or> startswith h ''data:'' then h else base @ h)"

definition demo_netloc :: "string \<Rightarrow> string" where
  "demo_netloc u = takeWhile (\<lambda>c. c \<noteq> CHR ''/'') (drop 8 u)"

definition demo_url_path :: "string \<Rightarrow> string" where
  "demo_url_path u =
     takeWhile (\<lambda>c. c \<noteq> CHR ''?'') (dropWhile (\<lambda>c. c \<noteq> CHR ''/'') (drop 8 u))"

definition demo_slugify :: "string \<Rightarrow> string" where
  "demo_slugify s = map (\<lambda>c. if c = CHR '' '' \<or> c = CHR ''.'' then CHR ''-'' else lower_char c) s"

definition demo_splitext_basename :: "string \<Rightarrow> string \<times> string" where
  "demo_splitext_basename p =
     (let b = last (split_on CHR ''/'' p);
          e = rev (takeWhile (\<lambda>c. c \<noteq> CHR ''.'') (rev b))
      in if CHR ''.'' \<in> set b \<and> length e + 1 < length b
         then (take (length b - length e - 1) b, CHR ''.'' # e)
         else (b, []))"

definition demo_guess_extension :: "string \<Rightarrow> string option" where
  "demo_guess_extension ct =
     (if ct = ''image/png'' then Some ''.png''
      else if ct = ''image/jpeg'' then Some ''.jpg'' else None)"

definition demo_convert_file :: "string \<Rightarrow> string \<Rightarrow> string \<Rightarrow> bool" where
  "demo_convert_file temp_html_path fmt outputfile = (fmt = ''epub'')"

definition demo_env :: env where
  "demo_env =
     \<lparr>get_archive = demo_get_archive, get_post = demo_get_post, get_image = demo_get_image,
      urljoin = demo_urljoin, netloc = demo_netloc, url_path = demo_url_path,
      slugify = demo_slugify, splitext_basename = demo_splitext_basename,
      guess_extension = demo_guess_extension, fromisoformat = demo_fromisoformat,
      strptime_long = demo_strptime, today = \<lparr>year = 2026, month = 11, day = 4\<rparr>,
      write_result = (\<lambda>p. WriteOk), convert_file = demo_convert_file, time_sleep = None\<rparr>"

definition demo_args :: args where
  "demo_args = \<lparr>substack_urls = [''https://demo.substack.com''], formats = ''md,json'',
                 output_dir = ''out'', download_images = True, incremental = True,
                 assets_dir_name = ''assets''\<rparr>"



text \<open>
  The URLs that page \<open>page\<close> of the archive yields (none when the request fails): the
  measure of what the walk has seen, used to say when a pagination repeats.
\<close>

definition page_urls :: "env \<Rightarrow> string \<Rightarrow> nat \<Rightarrow> string list" where
  "page_urls E substack_url page =
     (case get_archive E (archive_url substack_url page) of
        Inl e \<Rightarrow> []
      | Inr pg \<Rightarrow> current_page_urls E substack_url (links_on_page pg))"

text \<open>
  An image that is downloaded: it has a source that is not a data URI, the request
  succeeds, the last part of the URL's path has a non-empty stem, and \<open>name\<close> and
  \<open>ext\<close> are the slug of this stem and the extension lines 315 to 324 arrive at.
\<close>

definition downloads_as :: "env \<Rightarrow> string \<Rightarrow> img_tag \<Rightarrow> string \<Rightarrow> string \<Rightarrow> bool" where
  "downloads_as E base_url img name ext =
     (case src img of
        None \<Rightarrow> False
      | Some original_src \<Rightarrow>
          original_src \<noteq> [] \<and> \<not> startswith (urljoin E base_url original_src) ''data:'' \<and>
          (case get_image E (urljoin E base_url original_src) of
             Inl e \<Rightarrow> False
           | Inr content_type \<Rightarrow>
               (case splitext_basename E (url_path E (urljoin E base_url original_src)) of
                  (filename_base, ext_from_url) \<Rightarrow>
                    filename_base \<noteq> [] \<and> slugify E filename_base = name \<and>
                    image_extension E ext_from_url content_type = ext)))"

text \<open>
  A page that names no published date: its structured-data block, if it has one that
  parses, has no \<^verbatim>\<open>datePublished\<close>, and none of the three published-time meta elements
  is there.
\<close>

definition no_published_date :: "soup \<Rightarrow> bool" where
  "no_published_date sp =
     ((case json_ld_script sp of
         Some (Loaded j) \<Rightarrow> dict_get (select_json_data j) ''datePublished'' = JNull
       | _ \<Rightarrow> True) \<and>
      find_or (meta_article_published_time sp)
        (find_or (meta_og_published_time sp) (meta_cxense_publishtime sp)) = None)"

text \<open>A run that starts in an output directory that holds nothing yet.\<close>

definition demo_state :: state where
  "demo_state = \<lparr>files = [(''out'', Directory)], processed = [], fetched = []\<rparr>"

definition no_counts :: counts where
  "no_counts = \<lparr>successful_downloads = 0, skipped_downloads = 0, failed_downloads = 0\<rparr>"

text \<open>What a step leaves in place: paths that exist, and the absence of new JSON documents.\<close>

definition keeps :: "string \<Rightarrow> filesystem \<Rightarrow> filesystem \<Rightarrow> bool" where
  "keeps t fs fs' =
     ((\<forall>p. p \<noteq> t \<longrightarrow> path_exists fs p \<longrightarrow> path_exists fs' p) \<and>
      (\<forall>p j. lookup fs' p = Some (JsonDoc j) \<longrightarrow> lookup fs p = Some (JsonDoc j)))"

text \<open>
  A step that records nothing: the processed set is as before, and no path holds a JSON
  document that it did not hold before (the log is the only JSON document of that kind
  the program writes).
\<close>

definition unmarked :: "state \<Rightarrow> state \<Rightarrow> bool" where
  "unmarked st st' =
     (processed st' = processed st \<and>
      (\<forall>p j. lookup (files st') p = Some (JsonDoc j) \<longrightarrow> lookup (files st) p = Some (JsonDoc j)))"

text \<open>
  The state of the loop over the posts agrees with the disk: the output directory is a
  directory, and the log file at \<open>logp\<close> loads to the processed set in memory.
\<close>

definition log_in_step :: "string \<Rightarrow> string \<Rightarrow> state \<Rightarrow> bool" where
  "log_in_step d logp st =
     (lookup (files st) d = Some Directory \<and>
      fst (load_download_log (files st) logp) = Inr (processed st) \<and>
      distinct (map py_key (processed st)) \<and> list_all hashable (processed st))"

section \<open>Properties\<close>

subsection \<open>The incremental log\<close>

text \<open>
  What \<^verbatim>\<open>load_download_log\<close> does on a log that is missing and on a log that holds
  text which is not JSON: the empty set, in the second case with one warning.
\<close>

lemma load_download_log_absent_or_not_json:
  "(lookup fs p = None \<longrightarrow> load_download_log fs p = (Inr [], [])) \<and>
   (lookup fs p = Some NotJson \<longrightarrow>
      load_download_log fs p =
        (Inr [], [(WARNING, ''Could not parse download log '' @ p @
                            ''. Starting fresh for this substack.'')]))"
  by (simp add: load_download_log_def)

text \<open>
  C7 says that \<^verbatim>\<open>load_download_log\<close> returns the empty set, with a warning, on every
  log file that is not parseable JSON, and that such a log never blocks a run. The handler
  of line 544 catches \<^verbatim>\<open>json.JSONDecodeError\<close> only. A log file whose bytes are not text
  in the encoding of the platform makes \<^verbatim>\<open>json.load\<close> raise
  \<^verbatim>\<open>UnicodeDecodeError\<close>, which leaves \<^verbatim>\<open>load_download_log\<close>; the call at line 795
  stands outside any \<^verbatim>\<open>try\<close>, so the run of \<^verbatim>\<open>cli\<close> ends there, before any post
  is looked for.
\<close>

theorem undecodable_log_ends_run:
  "load_download_log [(''out/.download_log.json'', NotText), (''out'', Directory)]
       ''out/.download_log.json''
     = (Inl UnicodeDecodeError, []) \<and>
   process_substack demo_env demo_args 0 ''https://demo.substack.com''
       [(''out/.download_log.json'', NotText), (''out'', Directory)]
     = Some (Inl UnicodeDecodeError)"
  by code_simp

subsection \<open>Metadata extraction\<close>

text \<open>
  C2 as the specification states it: for the structured-data block of the example,
  \<^verbatim>\<open>extract_metadata_from_post\<close> returns the title \<^verbatim>\<open>T\<close>, the author \<^verbatim>\<open>A\<close>, the
  published date \<^verbatim>\<open>2023-01-01\<close> and the tags \<^verbatim>\<open>x\<close>, \<^verbatim>\<open>y\<close>. This fails on the date:
  on a page with that block and no meta element, the date that comes back is not
  \<^verbatim>\<open>2023-01-01\<close>, even with a date parser that accepts the time stamp.
\<close>

theorem json_ld_date_not_normalised:
  "published_date (extract_metadata_from_post demo_fromisoformat demo_strptime
                     (page_soup demo_post) ''https://demo.substack.com/p/first'')
     \<noteq> JStr ''2023-01-01''"
  by (simp add: extract_metadata_from_post_def apply_json_ld_def select_json_data_def dict_get_def
      author_of_def tags_of_def author_fallback_def date_fallback_def tags_fallback_def
      demo_post_def demo_json_ld_def empty_soup_def)

text \<open>
  C2, amended. For a page whose structured-data block is the one of the example, whatever
  its meta elements and whatever the date parsers do, \<^verbatim>\<open>extract_metadata_from_post\<close>
  returns the title \<^verbatim>\<open>T\<close>, the author \<^verbatim>\<open>A\<close>, the tags \<^verbatim>\<open>x\<close>, \<^verbatim>\<open>y\<close>, and as the
  published date the string of the block as it stands, \<^verbatim>\<open>2023-01-01T12:00:00Z\<close>: the date
  is brought to \<^verbatim>\<open>YYYY-MM-DD\<close> only when it is taken from a meta element.
\<close>

theorem json_ld_example_metadata:
  "extract_metadata_from_post parse_iso parse_long
     (sp\<lparr>json_ld_script := Some (Loaded (JDict
        [(''headline'', JStr ''T''),
         (''author'', JDict [(''name'', JStr ''A'')]),
         (''datePublished'', JStr ''2023-01-01T12:00:00Z''),
         (''keywords'', JStr ''x, y'')]))\<rparr>) post_url
   = \<lparr>title = JStr ''T'', author = JStr ''A'',
      published_date = JStr ''2023-01-01T12:00:00Z'', tags = [''x'', ''y''], url = post_url\<rparr>"
  by (simp add: extract_metadata_from_post_def apply_json_ld_def select_json_data_def dict_get_def
      author_of_def tags_of_def author_fallback_def date_fallback_def tags_fallback_def
      strip_def is_space_def)

subsection \<open>Archive discovery\<close>

lemma filter_unseen_Nil: "set xs \<subseteq> set acc \<Longrightarrow> filter (\<lambda>u. u \<notin> set acc) xs = []"
  by (auto simp: filter_empty_conv)

lemma archive_loop_known_page:
  assumes "get_archive E (archive_url s page) = Inr pg"
    and "set (current_page_urls E s (links_on_page pg)) \<subseteq> set acc"
  shows "archive_loop E s page acc = Some acc"
  using assms by (subst archive_loop.simps) (simp add: filter_unseen_Nil)

lemma archive_loop_returns:
  "page \<le> k \<Longrightarrow> k - page = n \<Longrightarrow>
   set (page_urls E s k) \<subseteq> set acc \<union> (\<Union>j\<in>{page..<k}. set (page_urls E s j)) \<Longrightarrow>
   \<exists>r. archive_loop E s page acc = Some r"
proof (induction n arbitrary: page acc)
  case 0
  then have sub: "set (page_urls E s page) \<subseteq> set acc" by simp
  show ?case
  proof (cases "get_archive E (archive_url s page)")
    case (Inl e)
    then show ?thesis by (subst archive_loop.simps) simp
  next
    case (Inr pg)
    with sub have "set (current_page_urls E s (links_on_page pg)) \<subseteq> set acc"
      by (simp add: page_urls_def)
    with Inr show ?thesis by (simp add: archive_loop_known_page)
  qed
next
  case (Suc n)
  then have lt: "page < k" by simp
  show ?case
  proof (cases "get_archive E (archive_url s page)")
    case (Inl e)
    then show ?thesis by (subst archive_loop.simps) simp
  next
    case (Inr pg)
    let ?cur = "current_page_urls E s (links_on_page pg)"
    let ?new = "filter (\<lambda>u. u \<notin> set acc) ?cur"
    have cur: "page_urls E s page = ?cur" using Inr by (simp add: page_urls_def)
    have range: "{page..<k} = insert page {Suc page..<k}" using lt by auto
    have "set (page_urls E s k) \<subseteq> set (acc @ ?new) \<union> (\<Union>j\<in>{Suc page..<k}. set (page_urls E s j))"
      using Suc.prems(3) cur unfolding range by auto
    moreover have "Suc page \<le> k" "k - Suc page = n" using Suc.prems lt by auto
    ultimately obtain r where "archive_loop E s (Suc page) (acc @ ?new) = Some r"
      using Suc.IH by blast
    then show ?thesis using Inr by (subst archive_loop.simps) (auto split: option.split)
  qed
qed

text \<open>
  C4. In the archive walk, a fetched page whose post URLs are all among the URLs gathered so
  far ends the loop at once with the URLs gathered so far, whatever else is on the page.
  Hence the walk returns whenever some page of the pagination brings nothing that the pages
  before it did not bring, as happens when the pagination repeats or loops.
\<close>

theorem archive_walk_halts_on_repeated_page:
  "(\<forall>pg. get_archive E (archive_url s page) = Inr pg \<longrightarrow>
      set (current_page_urls E s (links_on_page pg)) \<subseteq> set acc \<longrightarrow>
      archive_loop E s page acc = Some acc) \<and>
   ((\<exists>k\<ge>1. set (page_urls E s k) \<subseteq> (\<Union>j\<in>{1..<k}. set (page_urls E s j))) \<longrightarrow>
      (\<exists>r. get_all_post_urls E s = Some r))"
proof (intro conjI allI impI)
  fix pg
  assume "get_archive E (archive_url s page) = Inr pg"
    and "set (current_page_urls E s (links_on_page pg)) \<subseteq> set acc"
  then show "archive_loop E s page acc = Some acc" by (rule archive_loop_known_page)
next
  assume "\<exists>k\<ge>1. set (page_urls E s k) \<subseteq> (\<Union>j\<in>{1..<k}. set (page_urls E s j))"
  then obtain k where "1 \<le> k"
    and "set (page_urls E s k) \<subseteq> (\<Union>j\<in>{1..<k}. set (page_urls E s j))"
    by blast
  then show "\<exists>r. get_all_post_urls E s = Some r"
    unfolding get_all_post_urls_def
    using archive_loop_returns [of 1 k "k - 1" E s "[]"] by simp
qed

theorem archive_walk_halts_on_repeated_page_witness:
  "get_archive demo_env (archive_url ''https://demo.substack.com/'' 2)
     = Inr \<lparr>primary_links = [], fallback_links = [Some ''https://demo.substack.com/p/first'']\<rparr> \<and>
   set (current_page_urls demo_env ''https://demo.substack.com/''
          [Some ''https://demo.substack.com/p/first''])
     \<subseteq> set [''https://demo.substack.com/p/first''] \<and>
   archive_loop demo_env ''https://demo.substack.com/'' 2 [''https://demo.substack.com/p/first'']
     = Some [''https://demo.substack.com/p/first''] \<and>
   set (page_urls demo_env ''https://demo.substack.com/'' 2)
     \<subseteq> (\<Union>j\<in>{1..<2}. set (page_urls demo_env ''https://demo.substack.com/'' j)) \<and>
   (\<exists>r. get_all_post_urls demo_env ''https://demo.substack.com/'' = Some r)"
proof -
  let ?s = "''https://demo.substack.com/''"
  let ?acc = "[''https://demo.substack.com/p/first'']"
  let ?pg = "\<lparr>primary_links = [], fallback_links = [Some ''https://demo.substack.com/p/first'']\<rparr>"
  have a: "get_archive demo_env (archive_url ?s 2) = Inr ?pg" by code_simp
  have l: "links_on_page ?pg = [Some ''https://demo.substack.com/p/first'']"
    by code_simp
  have c: "current_page_urls demo_env ?s [Some ''https://demo.substack.com/p/first''] = ?acc"
    by code_simp
  have p1: "page_urls demo_env ?s 1 = ?acc" by code_simp
  have p2: "page_urls demo_env ?s 2 = ?acc" by code_simp
  have r: "{1..<2::nat} = {1}" by auto
  have "set (page_urls demo_env ?s 2) \<subseteq> (\<Union>j\<in>{1}. set (page_urls demo_env ?s j))"
    by (simp only: p1 p2 UN_insert UN_empty Un_empty_right subset_refl)
  then have rep: "set (page_urls demo_env ?s 2) \<subseteq> (\<Union>j\<in>{1..<2}. set (page_urls demo_env ?s j))"
    by (simp only: r)
  have sub0: "set (current_page_urls demo_env ?s [Some ''https://demo.substack.com/p/first'']) \<subseteq> set ?acc"
    by (simp only: c subset_refl)
  then have sub: "set (current_page_urls demo_env ?s (links_on_page ?pg)) \<subseteq> set ?acc"
    by (simp only: l)
  note T = archive_walk_halts_on_repeated_page [of demo_env ?s 2 ?acc]
  from T have T1: "get_archive demo_env (archive_url ?s 2) = Inr ?pg \<longrightarrow>
      set (current_page_urls demo_env ?s (links_on_page ?pg)) \<subseteq> set ?acc \<longrightarrow>
      archive_loop demo_env ?s 2 ?acc = Some ?acc"
    by (rule conjunct1 [THEN spec])
  from T1 a sub have L: "archive_loop demo_env ?s 2 ?acc = Some ?acc" by (rule mp [THEN mp])
  have ex: "\<exists>k\<ge>1. set (page_urls demo_env ?s k) \<subseteq> (\<Union>j\<in>{1..<k}. set (page_urls demo_env ?s j))"
    using rep by (intro exI [of _ "2::nat"] conjI) simp_all
  from T have T2: "(\<exists>k\<ge>1. set (page_urls demo_env ?s k) \<subseteq> (\<Union>j\<in>{1..<k}. set (page_urls demo_env ?s j))) \<longrightarrow>
      (\<exists>r. get_all_post_urls demo_env ?s = Some r)"
    by (rule conjunct2)
  from T2 ex have R: "\<exists>r. get_all_post_urls demo_env ?s = Some r" by (rule mp)
  from a sub0 L rep R show ?thesis by (intro conjI)
qed



subsection \<open>Image localisation\<close>


lemma lookup_Cons [simp]: "lookup ((p, f) # fs) q = (if q = p then Some f else lookup fs q)"
  by (simp add: lookup_def)

lemma path_exists_Cons [simp]: "path_exists ((p, f) # fs) q = (q = p \<or> path_exists fs q)"
  by (simp add: path_exists_def)

lemma unique_filename_spec:
  "\<not> path_exists fs (path_join d (unique_filename fs d b e name c)) \<and>
   (unique_filename fs d b e name c = name \<or>
    (path_exists fs (path_join d name) \<and>
     (\<exists>k\<ge>c. unique_filename fs d b e name c = candidate b e k \<and>
        (\<forall>j. c \<le> j \<and> j < k \<longrightarrow> path_exists fs (path_join d (candidate b e j))))))"
proof (induction fs d b e name c rule: unique_filename.induct)
  case (1 fs d b e name c)
  show ?case
  proof (cases "path_exists fs (path_join d name)")
    case False
    then show ?thesis by (subst (1 2) unique_filename.simps) simp
  next
    case True
    let ?r = "unique_filename fs d b e (candidate b e c) (Suc c)"
    have eq: "unique_filename fs d b e name c = ?r"
      using True by (subst unique_filename.simps) simp
    from "1.IH" [OF True] have ih1: "\<not> path_exists fs (path_join d ?r)"
      and ih2: "?r = candidate b e c \<or>
         (path_exists fs (path_join d (candidate b e c)) \<and>
          (\<exists>k\<ge>Suc c. ?r = candidate b e k \<and>
            (\<forall>j. Suc c \<le> j \<and> j < k \<longrightarrow> path_exists fs (path_join d (candidate b e j)))))"
      by blast+
    from ih2 have "\<exists>k\<ge>c. ?r = candidate b e k \<and>
        (\<forall>j. c \<le> j \<and> j < k \<longrightarrow> path_exists fs (path_join d (candidate b e j)))"
    proof
      assume "?r = candidate b e c"
      then show ?thesis by (intro exI [of _ c]) auto
    next
      assume "path_exists fs (path_join d (candidate b e c)) \<and>
          (\<exists>k\<ge>Suc c. ?r = candidate b e k \<and>
            (\<forall>j. Suc c \<le> j \<and> j < k \<longrightarrow> path_exists fs (path_join d (candidate b e j))))"
      then obtain k where c0: "path_exists fs (path_join d (candidate b e c))"
        and k: "Suc c \<le> k" "?r = candidate b e k"
        and a: "\<forall>j. Suc c \<le> j \<and> j < k \<longrightarrow> path_exists fs (path_join d (candidate b e j))"
        by blast
      have "\<forall>j. c \<le> j \<and> j < k \<longrightarrow> path_exists fs (path_join d (candidate b e j))"
      proof (intro allI impI)
        fix j assume "c \<le> j \<and> j < k"
        then show "path_exists fs (path_join d (candidate b e j))"
          using c0 a by (cases "j = c") auto
      qed
      with k show ?thesis by (intro exI [of _ k]) simp
    qed
    with ih1 True show ?thesis unfolding eq by blast
  qed
qed

lemma startswith_single [simp]: "startswith (c # s) [c]"
  by simp

lemma image_extension_dot: "\<exists>r. image_extension E x ct = CHR ''.'' # r"
proof -
  have "startswith (image_extension E x ct) ''.''"
    by (simp add: image_extension_def Let_def)
  then show ?thesis by (cases "image_extension E x ct") auto
qed

lemma path_join_relative:
  "\<not> startswith x ''/'' \<Longrightarrow> \<not> startswith y ''/'' \<Longrightarrow> path_join d x = path_join d y \<Longrightarrow> x = y"
  by (cases x; cases y) (auto simp: path_join_def split: if_splits)

lemma plain_name_not_candidate:
  "path_join d (b @ CHR ''.'' # r) \<noteq> path_join d (candidate b (CHR ''.'' # r) k)"
proof (cases b)
  case Nil
  show ?thesis
  proof
    assume "path_join d (b @ CHR ''.'' # r) = path_join d (candidate b (CHR ''.'' # r) k)"
    then have "b @ CHR ''.'' # r = candidate b (CHR ''.'' # r) k"
      using Nil by (elim path_join_relative [rotated 2]) (simp_all add: candidate_def)
    then show False using Nil by (simp add: candidate_def)
  qed
next
  case (Cons c cs)
  show ?thesis
  proof
    assume "path_join d (b @ CHR ''.'' # r) = path_join d (candidate b (CHR ''.'' # r) k)"
    then have "b @ CHR ''.'' # r = candidate b (CHR ''.'' # r) k"
      using Cons by (elim path_join_same_head [rotated 3]) (simp_all add: candidate_def)
    then show False by (simp add: candidate_def)
  qed
qed

lemma write_file_keeps_directory:
  "lookup fs d = Some Directory \<Longrightarrow> write_file w p c fs = (r, fs') \<Longrightarrow> lookup fs' d = Some Directory"
  by (auto simp: write_file_def split: if_splits write_outcome.splits)

lemma localize_image_keeps_directory:
  "lookup fs d = Some Directory \<Longrightarrow> localize_image E b sd ps a i img fs = (img', fs') \<Longrightarrow>
   lookup fs' d = Some Directory"
  unfolding localize_image_def
  by (auto simp: Let_def split: option.splits if_splits sum.splits prod.splits
           dest: write_file_keeps_directory)

lemma localize_images_keeps_directory:
  "lookup fs d = Some Directory \<Longrightarrow> localize_images E b sd ps a seen imgs fs = (imgs', fs') \<Longrightarrow>
   lookup fs' d = Some Directory"
proof (induction imgs arbitrary: seen fs)
  case Nil
  then show ?case by simp
next
  case (Cons img rest)
  obtain img1 fs1 where s: "localize_image E b sd ps a (first_index (seen @ img # rest) img) img fs = (img1, fs1)"
    by (cases "localize_image E b sd ps a (first_index (seen @ img # rest) img) img fs")
  with Cons.prems(1) have "lookup fs1 d = Some Directory" by (rule localize_image_keeps_directory)
  moreover from Cons.prems(2) s have "localize_images E b sd ps a (seen @ [img1]) rest fs1 = (imgs', fs')"
    by simp
  ultimately show ?case by (rule Cons.IH)
qed

lemma makedirs_result: "makedirs d fs = Inr fs1 \<Longrightarrow> lookup fs1 d = Some Directory"
  by (auto simp: makedirs_def split: if_splits option.splits entry.splits)

lemma localize_image_downloaded:
  assumes "downloads_as E base img name ext"
  shows "localize_image E base d slug assets idx img fs =
     (case write_file (write_result E)
             (path_join d (unique_filename fs d name ext (name @ ext) 1)) NotText fs of
        (Some e, fs') \<Rightarrow> (img, fs')
      | (None, fs') \<Rightarrow>
          (img\<lparr>src := Some (path_join (path_join assets slug)
                              (unique_filename fs d name ext (name @ ext) 1))\<rparr>, fs'))"
  using assms unfolding downloads_as_def localize_image_def
  by (auto simp: Let_def split: option.splits sum.splits prod.splits)

lemma downloads_as_dot: "downloads_as E base img name ext \<Longrightarrow> \<exists>r. ext = CHR ''.'' # r"
  unfolding downloads_as_def
  using image_extension_dot by (auto split: option.splits sum.splits prod.splits)

lemma write_file_fresh:
  "\<not> path_exists fs p \<Longrightarrow> w p = WriteOk \<Longrightarrow> write_file w p c fs = (None, (p, c) # fs)"
  by (simp add: write_file_def path_exists_def)

lemma two_colliding_images:
  assumes d1: "downloads_as E base img1 name ext" and d2: "downloads_as E base img2 name ext"
    and f0: "\<not> path_exists fs (path_join d (name @ ext))"
    and f1: "\<not> path_exists fs (path_join d (candidate name ext 1))"
    and w0: "write_result E (path_join d (name @ ext)) = WriteOk"
    and w1: "write_result E (path_join d (candidate name ext 1)) = WriteOk"
  shows "localize_images E base d slug assets [] [img1, img2] fs =
     ([img1\<lparr>src := Some (path_join (path_join assets slug) (name @ ext))\<rparr>,
       img2\<lparr>src := Some (path_join (path_join assets slug) (candidate name ext 1))\<rparr>],
      (path_join d (candidate name ext 1), NotText) # (path_join d (name @ ext), NotText) # fs)"
proof -
  let ?p0 = "path_join d (name @ ext)"
  let ?p1 = "path_join d (candidate name ext 1)"
  let ?fs1 = "(?p0, NotText) # fs"
  from d1 obtain r where ext: "ext = CHR ''.'' # r" using downloads_as_dot by blast
  have ne: "?p1 \<noteq> ?p0" unfolding ext using plain_name_not_candidate [of d name r 1] by simp
  have u0: "unique_filename fs d name ext (name @ ext) 1 = name @ ext"
    by (subst unique_filename.simps) (simp only: f0 if_False)
  have f1': "\<not> path_exists ?fs1 ?p1" using f1 ne by (simp only: path_exists_Cons) blast
  have p0: "path_exists ?fs1 ?p0" by (simp only: path_exists_Cons) blast
  have u1a: "unique_filename ?fs1 d name ext (candidate name ext 1) (Suc 1) = candidate name ext 1"
    by (subst unique_filename.simps) (simp only: f1' if_False)
  have u1: "unique_filename ?fs1 d name ext (name @ ext) 1 = candidate name ext 1"
    by (subst unique_filename.simps) (simp only: p0 if_True u1a)
  have s1: "localize_image E base d slug assets i img1 fs =
      (img1\<lparr>src := Some (path_join (path_join assets slug) (name @ ext))\<rparr>, ?fs1)" for i
    by (simp only: localize_image_downloaded [OF d1] u0
          write_file_fresh [of fs _ "write_result E", OF f0 w0] prod.case option.case)
  have s2: "localize_image E base d slug assets i img2 ?fs1 =
      (img2\<lparr>src := Some (path_join (path_join assets slug) (candidate name ext 1))\<rparr>, (?p1, NotText) # ?fs1)" for i
    by (simp only: localize_image_downloaded [OF d2] u1
          write_file_fresh [of ?fs1 _ "write_result E", OF f1' w1] prod.case option.case)
  show ?thesis by (simp only: localize_images.simps s1 s2 prod.case append_Nil append_Cons)
qed

text \<open>
  C5 as the specification states it: of two images of one fragment with the same slug and
  the same extension, the first is written as \<^verbatim>\<open>name.ext\<close> and the second as
  \<^verbatim>\<open>name_1.ext\<close>. This fails when the directory already holds \<^verbatim>\<open>name.ext\<close>, as it
  does when the post is processed a second time: the two images are then written as
  \<^verbatim>\<open>pic_1.png\<close> and \<^verbatim>\<open>pic_2.png\<close>.
\<close>

theorem image_names_in_used_directory:
  "download_images_and_rewrite_paths demo_env [demo_image, demo_image]
     ''https://demo.substack.com/p/first'' ''out/assets/t'' ''t'' ''assets''
     [(''out/assets/t/pic.png'', NotText)]
   = Inr ([\<lparr>src = Some ''assets/t/pic_1.png'', other_attrs = ''alt=pic''\<rparr>,
           \<lparr>src = Some ''assets/t/pic_2.png'', other_attrs = ''alt=pic''\<rparr>],
          [(''out/assets/t/pic_2.png'', NotText), (''out/assets/t/pic_1.png'', NotText),
           (''out/assets/t'', Directory), (''out/assets/t/pic.png'', NotText)])"
  by code_simp

text \<open>
  C5, amended. The name under which a downloaded image is written is the first name not yet
  present in the destination directory among \<^verbatim>\<open>name.ext\<close>, \<^verbatim>\<open>name_1.ext\<close>,
  \<^verbatim>\<open>name_2.ext\<close>, ...: the name chosen is free, and every name before it in this
  sequence is taken. So when the directory holds neither \<^verbatim>\<open>name.ext\<close> nor
  \<^verbatim>\<open>name_1.ext\<close>, two downloaded images of one fragment with the same slug and the same
  extension are written as \<^verbatim>\<open>name.ext\<close> and \<^verbatim>\<open>name_1.ext\<close>, in the order in which
  the fragment has them, and their sources are rewritten to these names.
\<close>

theorem localized_image_names:
  "(\<not> path_exists fs (path_join d (unique_filename fs d name ext (name @ ext) 1)) \<and>
    (unique_filename fs d name ext (name @ ext) 1 = name @ ext \<or>
     (path_exists fs (path_join d (name @ ext)) \<and>
      (\<exists>k\<ge>1. unique_filename fs d name ext (name @ ext) 1 = candidate name ext k \<and>
         (\<forall>j. 1 \<le> j \<and> j < k \<longrightarrow> path_exists fs (path_join d (candidate name ext j))))))) \<and>
   (downloads_as E base img name ext \<longrightarrow>
      localize_image E base d slug assets idx img fs =
        (case write_file (write_result E)
                (path_join d (unique_filename fs d name ext (name @ ext) 1)) NotText fs of
           (Some e, fs') \<Rightarrow> (img, fs')
         | (None, fs') \<Rightarrow>
             (img\<lparr>src := Some (path_join (path_join assets slug)
                                 (unique_filename fs d name ext (name @ ext) 1))\<rparr>, fs'))) \<and>
   (downloads_as E base img1 name ext \<longrightarrow> downloads_as E base img2 name ext \<longrightarrow>
    \<not> path_exists fs (path_join d (name @ ext)) \<longrightarrow>
    \<not> path_exists fs (path_join d (candidate name ext 1)) \<longrightarrow>
    write_result E (path_join d (name @ ext)) = WriteOk \<longrightarrow>
    write_result E (path_join d (candidate name ext 1)) = WriteOk \<longrightarrow>
      localize_images E base d slug assets [] [img1, img2] fs =
        ([img1\<lparr>src := Some (path_join (path_join assets slug) (name @ ext))\<rparr>,
          img2\<lparr>src := Some (path_join (path_join assets slug) (candidate name ext 1))\<rparr>],
         (path_join d (candidate name ext 1), NotText) # (path_join d (name @ ext), NotText) # fs))"
proof (intro conjI impI)
  show "\<not> path_exists fs (path_join d (unique_filename fs d name ext (name @ ext) 1))"
    using unique_filename_spec [of fs d name ext "name @ ext" 1] by (rule conjunct1)
  show "unique_filename fs d name ext (name @ ext) 1 = name @ ext \<or>
     (path_exists fs (path_join d (name @ ext)) \<and>
      (\<exists>k\<ge>1. unique_filename fs d name ext (name @ ext) 1 = candidate name ext k \<and>
         (\<forall>j. 1 \<le> j \<and> j < k \<longrightarrow> path_exists fs (path_join d (candidate name ext j)))))"
    using unique_filename_spec [of fs d name ext "name @ ext" 1] by (rule conjunct2)
next
  assume "downloads_as E base img name ext"
  then show "localize_image E base d slug assets idx img fs =
        (case write_file (write_result E)
                (path_join d (unique_filename fs d name ext (name @ ext) 1)) NotText fs of
           (Some e, fs') \<Rightarrow> (img, fs')
         | (None, fs') \<Rightarrow>
             (img\<lparr>src := Some (path_join (path_join assets slug)
                                 (unique_filename fs d name ext (name @ ext) 1))\<rparr>, fs'))"
    by (rule localize_image_downloaded)
next
  assume "downloads_as E base img1 name ext" "downloads_as E base img2 name ext"
    "\<not> path_exists fs (path_join d (name @ ext))"
    "\<not> path_exists fs (path_join d (candidate name ext 1))"
    "write_result E (path_join d (name @ ext)) = WriteOk"
    "write_result E (path_join d (candidate name ext 1)) = WriteOk"
  then show "localize_images E base d slug assets [] [img1, img2] fs =
        ([img1\<lparr>src := Some (path_join (path_join assets slug) (name @ ext))\<rparr>,
          img2\<lparr>src := Some (path_join (path_join assets slug) (candidate name ext 1))\<rparr>],
         (path_join d (candidate name ext 1), NotText) # (path_join d (name @ ext), NotText) # fs)"
    by (rule two_colliding_images)
qed

theorem localized_image_names_witness:
  "downloads_as demo_env ''https://demo.substack.com/p/first'' demo_image ''pic'' ''.png'' \<and>
   \<not> path_exists [(''out/assets/t'', Directory)] ''out/assets/t/pic.png'' \<and>
   \<not> path_exists [(''out/assets/t'', Directory)] ''out/assets/t/pic_1.png'' \<and>
   write_result demo_env ''out/assets/t/pic.png'' = WriteOk \<and>
   write_result demo_env ''out/assets/t/pic_1.png'' = WriteOk \<and>
   localize_images demo_env ''https://demo.substack.com/p/first'' ''out/assets/t'' ''t'' ''assets'' []
       [demo_image, demo_image] [(''out/assets/t'', Directory)] =
     ([demo_image\<lparr>src := Some ''assets/t/pic.png''\<rparr>,
       demo_image\<lparr>src := Some ''assets/t/pic_1.png''\<rparr>],
      [(''out/assets/t/pic_1.png'', NotText), (''out/assets/t/pic.png'', NotText),
       (''out/assets/t'', Directory)])"
proof -
  let ?fs = "[(''out/assets/t'', Directory)]"
  let ?b = "''https://demo.substack.com/p/first''"
  have p0: "path_join ''out/assets/t'' (''pic'' @ ''.png'') = ''out/assets/t/pic.png''" by code_simp
  have p1: "path_join ''out/assets/t'' (candidate ''pic'' ''.png'' 1) = ''out/assets/t/pic_1.png''"
    by code_simp
  have q0: "path_join (path_join ''assets'' ''t'') (''pic'' @ ''.png'') = ''assets/t/pic.png''"
    by code_simp
  have q1: "path_join (path_join ''assets'' ''t'') (candidate ''pic'' ''.png'' 1) = ''assets/t/pic_1.png''"
    by code_simp
  have d: "downloads_as demo_env ?b demo_image ''pic'' ''.png''" by code_simp
  have f0: "\<not> path_exists ?fs ''out/assets/t/pic.png''" by code_simp
  have f1: "\<not> path_exists ?fs ''out/assets/t/pic_1.png''" by code_simp
  have w0: "write_result demo_env ''out/assets/t/pic.png'' = WriteOk" by code_simp
  have w1: "write_result demo_env ''out/assets/t/pic_1.png'' = WriteOk" by code_simp
  note T = localized_image_names [of ?fs "''out/assets/t''" "''pic''" "''.png''" demo_env ?b
             demo_image "''t''" "''assets''" 0 demo_image demo_image,
             THEN conjunct2, THEN conjunct2, unfolded p0 p1 q0 q1]
  from T d have "downloads_as demo_env ?b demo_image ''pic'' ''.png'' \<longrightarrow>
    \<not> path_exists ?fs ''out/assets/t/pic.png'' \<longrightarrow>
    \<not> path_exists ?fs ''out/assets/t/pic_1.png'' \<longrightarrow>
    write_result demo_env ''out/assets/t/pic.png'' = WriteOk \<longrightarrow>
    write_result demo_env ''out/assets/t/pic_1.png'' = WriteOk \<longrightarrow>
      localize_images demo_env ?b ''out/assets/t'' ''t'' ''assets'' [] [demo_image, demo_image] ?fs =
        ([demo_image\<lparr>src := Some ''assets/t/pic.png''\<rparr>,
          demo_image\<lparr>src := Some ''assets/t/pic_1.png''\<rparr>],
         [(''out/assets/t/pic_1.png'', NotText), (''out/assets/t/pic.png'', NotText),
          (''out/assets/t'', Directory)])" by (rule mp)
  from this d have "\<not> path_exists ?fs ''out/assets/t/pic.png'' \<longrightarrow>
    \<not> path_exists ?fs ''out/assets/t/pic_1.png'' \<longrightarrow>
    write_result demo_env ''out/assets/t/pic.png'' = WriteOk \<longrightarrow>
    write_result demo_env ''out/assets/t/pic_1.png'' = WriteOk \<longrightarrow>
      localize_images demo_env ?b ''out/assets/t'' ''t'' ''assets'' [] [demo_image, demo_image] ?fs =
        ([demo_image\<lparr>src := Some ''assets/t/pic.png''\<rparr>,
          demo_image\<lparr>src := Some ''assets/t/pic_1.png''\<rparr>],
         [(''out/assets/t/pic_1.png'', NotText), (''out/assets/t/pic.png'', NotText),
          (''out/assets/t'', Directory)])" by (rule mp)
  from this f0 have "\<not> path_exists ?fs ''out/assets/t/pic_1.png'' \<longrightarrow>
    write_result demo_env ''out/assets/t/pic.png'' = WriteOk \<longrightarrow>
    write_result demo_env ''out/assets/t/pic_1.png'' = WriteOk \<longrightarrow>
      localize_images demo_env ?b ''out/assets/t'' ''t'' ''assets'' [] [demo_image, demo_image] ?fs =
        ([demo_image\<lparr>src := Some ''assets/t/pic.png''\<rparr>,
          demo_image\<lparr>src := Some ''assets/t/pic_1.png''\<rparr>],
         [(''out/assets/t/pic_1.png'', NotText), (''out/assets/t/pic.png'', NotText),
          (''out/assets/t'', Directory)])" by (rule mp)
  from this f1 have "write_result demo_env ''out/assets/t/pic.png'' = WriteOk \<longrightarrow>
    write_result demo_env ''out/assets/t/pic_1.png'' = WriteOk \<longrightarrow>
      localize_images demo_env ?b ''out/assets/t'' ''t'' ''assets'' [] [demo_image, demo_image] ?fs =
        ([demo_image\<lparr>src := Some ''assets/t/pic.png''\<rparr>,
          demo_image\<lparr>src := Some ''assets/t/pic_1.png''\<rparr>],
         [(''out/assets/t/pic_1.png'', NotText), (''out/assets/t/pic.png'', NotText),
          (''out/assets/t'', Directory)])" by (rule mp)
  from this w0 have "write_result demo_env ''out/assets/t/pic_1.png'' = WriteOk \<longrightarrow>
      localize_images demo_env ?b ''out/assets/t'' ''t'' ''assets'' [] [demo_image, demo_image] ?fs =
        ([demo_image\<lparr>src := Some ''assets/t/pic.png''\<rparr>,
          demo_image\<lparr>src := Some ''assets/t/pic_1.png''\<rparr>],
         [(''out/assets/t/pic_1.png'', NotText), (''out/assets/t/pic.png'', NotText),
          (''out/assets/t'', Directory)])" by (rule mp)
  from this w1 have c: "localize_images demo_env ?b ''out/assets/t'' ''t'' ''assets'' [] [demo_image, demo_image] ?fs =
        ([demo_image\<lparr>src := Some ''assets/t/pic.png''\<rparr>,
          demo_image\<lparr>src := Some ''assets/t/pic_1.png''\<rparr>],
         [(''out/assets/t/pic_1.png'', NotText), (''out/assets/t/pic.png'', NotText),
          (''out/assets/t'', Directory)])" by (rule mp)
  from d f0 f1 w0 w1 c show ?thesis by (intro conjI)
qed

text \<open>
  C9 as the specification states it: the asset directory of a post comes into existence
  only when an image is written into it. This fails: for a fragment whose only image is a
  data URI the directory is made and no file is written.
\<close>

theorem directory_made_without_image_written:
  "download_images_and_rewrite_paths demo_env
     [\<lparr>src = Some ''data:image/png;base64,AAAA'', other_attrs = []\<rparr>]
     ''https://demo.substack.com/p/first'' ''out/assets/t'' ''t'' ''assets'' []
   = Inr ([\<lparr>src = Some ''data:image/png;base64,AAAA'', other_attrs = []\<rparr>],
          [(''out/assets/t'', Directory)])"
  by code_simp

text \<open>
  C9, amended. The asset directory of a post is made as soon as the fragment has at least
  one \<^verbatim>\<open>img\<close> element, before any image is looked at and hence before the first write,
  whether or not an image is then written; it is there when the function returns. For a
  fragment without an \<^verbatim>\<open>img\<close> element nothing is made and the file system stays as it is.
\<close>

theorem asset_directory_made_for_any_image:
  "download_images_and_rewrite_paths E [] base save_dir slug assets fs = Inr ([], fs) \<and>
   (images_found \<noteq> [] \<longrightarrow>
      download_images_and_rewrite_paths E images_found base save_dir slug assets fs =
        (case makedirs save_dir fs of
           Inl e \<Rightarrow> Inl e
         | Inr fs1 \<Rightarrow> Inr (localize_images E base save_dir slug assets [] images_found fs1))) \<and>
   (images_found \<noteq> [] \<longrightarrow>
      download_images_and_rewrite_paths E images_found base save_dir slug assets fs = Inr (imgs', fs') \<longrightarrow>
      lookup fs' save_dir = Some Directory)"
proof (intro conjI impI)
  show "download_images_and_rewrite_paths E [] base save_dir slug assets fs = Inr ([], fs)"
    by (simp add: download_images_and_rewrite_paths_def)
next
  assume "images_found \<noteq> []"
  then show "download_images_and_rewrite_paths E images_found base save_dir slug assets fs =
        (case makedirs save_dir fs of
           Inl e \<Rightarrow> Inl e
         | Inr fs1 \<Rightarrow> Inr (localize_images E base save_dir slug assets [] images_found fs1))"
    by (simp add: download_images_and_rewrite_paths_def)
next
  assume ne: "images_found \<noteq> []"
    and r: "download_images_and_rewrite_paths E images_found base save_dir slug assets fs = Inr (imgs', fs')"
  from ne r obtain fs1 where m: "makedirs save_dir fs = Inr fs1"
    and l: "localize_images E base save_dir slug assets [] images_found fs1 = (imgs', fs')"
    by (auto simp: download_images_and_rewrite_paths_def split: sum.splits)
  from m have "lookup fs1 save_dir = Some Directory" by (rule makedirs_result)
  then show "lookup fs' save_dir = Some Directory" using l by (rule localize_images_keeps_directory)
qed

theorem asset_directory_made_for_any_image_witness:
  "[\<lparr>src = Some ''data:image/png;base64,AAAA'', other_attrs = []\<rparr>] \<noteq> [] \<and>
   download_images_and_rewrite_paths demo_env
     [\<lparr>src = Some ''data:image/png;base64,AAAA'', other_attrs = []\<rparr>]
     ''https://demo.substack.com/p/first'' ''out/assets/t'' ''t'' ''assets'' []
   = Inr ([\<lparr>src = Some ''data:image/png;base64,AAAA'', other_attrs = []\<rparr>],
          [(''out/assets/t'', Directory)]) \<and>
   lookup [(''out/assets/t'', Directory)] ''out/assets/t'' = Some Directory"
proof -
  let ?imgs = "[\<lparr>src = Some ''data:image/png;base64,AAAA'', other_attrs = []\<rparr>]"
  have ne: "?imgs \<noteq> []" by (rule not_Cons_self2 [symmetric, THEN not_sym] | simp)
  have r: "download_images_and_rewrite_paths demo_env ?imgs
     ''https://demo.substack.com/p/first'' ''out/assets/t'' ''t'' ''assets'' []
   = Inr (?imgs, [(''out/assets/t'', Directory)])" by code_simp
  note T = asset_directory_made_for_any_image
             [of demo_env "''https://demo.substack.com/p/first''" "''out/assets/t''" "''t''"
                 "''assets''" "[]" ?imgs ?imgs "[(''out/assets/t'', Directory)]",
              THEN conjunct2, THEN conjunct2]
  from T ne have "download_images_and_rewrite_paths demo_env ?imgs
     ''https://demo.substack.com/p/first'' ''out/assets/t'' ''t'' ''assets'' []
       = Inr (?imgs, [(''out/assets/t'', Directory)]) \<longrightarrow>
     lookup [(''out/assets/t'', Directory)] ''out/assets/t'' = Some Directory" by (rule mp)
  from this r have l: "lookup [(''out/assets/t'', Directory)] ''out/assets/t'' = Some Directory"
    by (rule mp)
  from ne r l show ?thesis by (intro conjI)
qed


subsection \<open>Rendering\<close>

lemma lookup_remove_path [simp]:
  "lookup (remove_path p fs) q = (if q = p then None else lookup fs q)"
  by (induction fs) (auto simp: remove_path_def lookup_def)

lemma path_join_not_Nil: "b \<noteq> [] \<Longrightarrow> path_join a b \<noteq> []"
  by (auto simp: path_join_def)

lemma temp_html_path_not_Nil [simp]: "temp_html_path_of out prefix slug \<noteq> []"
  by (simp add: temp_html_path_of_def path_join_not_Nil)

lemma handle_conversion_error_temp:
  "t \<noteq> [] \<Longrightarrow> lookup (snd (handle_conversion_error t fs)) t =
     (if lookup fs t = Some Directory then Some Directory else None)"
  by (auto simp: handle_conversion_error_def os_remove_def path_exists_def
           split: option.splits entry.splits)

text \<open>
  C8. After the conversion step of a \<^verbatim>\<open>pdf\<close> or \<^verbatim>\<open>epub\<close> render, no file is left at
  the path of the temporary HTML document, whatever the outcome of writing it and whether
  \<^verbatim>\<open>pypandoc.convert_file\<close> returned or raised. (Only a directory that was at that path
  before the step, which the step can neither write nor remove, is still there.)
\<close>

theorem temp_html_removed:
  "lookup (snd (convert_with_pandoc E out prefix slug fmt filepath fs))
          (temp_html_path_of out prefix slug)
   = (if lookup fs (temp_html_path_of out prefix slug) = Some Directory
      then Some Directory else None)"
proof -
  let ?t = "temp_html_path_of out prefix slug"
  show ?thesis
  proof (cases "lookup fs ?t = Some Directory")
    case True
    then show ?thesis
      by (simp add: convert_with_pandoc_def write_file_def handle_conversion_error_temp)
  next
    case False
    then show ?thesis
      by (cases "write_result E ?t")
         (simp_all add: convert_with_pandoc_def write_file_def handle_conversion_error_temp
            os_remove_def Let_def)
  qed
qed


subsection \<open>Posts without a date\<close>

lemma no_published_date_None:
  "no_published_date sp \<Longrightarrow>
   published_date (extract_metadata_from_post f g sp u) = JNull"
  by (auto simp: no_published_date_def extract_metadata_from_post_def apply_json_ld_def
        author_fallback_def date_fallback_def tags_fallback_def Let_def
        split: option.splits ld_script.splits)

lemma post_metadata_date:
  "post_metadata E pg u = Inr (m, content) \<Longrightarrow>
   published_date m = published_date (extract_metadata_from_post (fromisoformat E) (strptime_long E) (page_soup pg) u)"
  by (auto simp: post_metadata_def Let_def split: option.splits sum.splits)

lemma render_step_undated:
  "published_date m = JNull \<Longrightarrow> render_step E m slug out fmts st = (Some AttributeError, st)"
  by (simp add: render_step_def formatted_date_prefix_of_def)

lemma process_post_body_undated:
  assumes g: "get_post E u = Inr pg" and nd: "no_published_date (page_soup pg)"
  shows "\<exists>e st'. process_post_body E u out fmts dl assets inc logp st = (Some e, st') \<and>
      processed st' = processed st \<and> fetched st' = fetched st @ [u] \<and>
      (files st' = files st \<or>
       (dl \<and> (\<exists>content slug imgs'.
          download_images_and_rewrite_paths E content u (path_join (path_join out assets) slug)
            slug assets (files st) = Inr (imgs', files st'))))"
proof (cases "post_metadata E pg u")
  case (Inl e)
  with g show ?thesis by (simp add: process_post_body_def)
next
  case (Inr r)
  then obtain m content where r: "post_metadata E pg u = Inr (m, content)" by (cases r) auto
  from post_metadata_date [OF r] no_published_date_None [OF nd]
  have d: "published_date m = JNull" by simp
  show ?thesis
  proof (cases "post_assets_slug_of E (title m) (url_slug_of u)")
    case (Inl e)
    with g r show ?thesis by (simp add: process_post_body_def)
  next
    case (Inr slug)
    let ?st1 = "st\<lparr>fetched := fetched st @ [u]\<rparr>"
    show ?thesis
    proof (cases dl)
      case False
      then have "images_step E dl content u out assets slug ?st1 = (None, ?st1)"
        by (simp add: images_step_def)
      with g r Inr show ?thesis
        by (simp add: process_post_body_def render_step_undated [OF d])
    next
      case True
      show ?thesis
      proof (cases "download_images_and_rewrite_paths E content u
                      (path_join (path_join out assets) slug) slug assets (files st)")
        case (Inl e)
        then have "images_step E dl content u out assets slug ?st1 = (Some e, ?st1)"
          using True by (simp add: images_step_def)
        with g r Inr show ?thesis by (simp add: process_post_body_def)
      next
        case (Inr res)
        then obtain imgs' fs' where res: "download_images_and_rewrite_paths E content u
                      (path_join (path_join out assets) slug) slug assets (files st) = Inr (imgs', fs')"
          by (cases res) auto
        then have "images_step E dl content u out assets slug ?st1 = (None, ?st1\<lparr>files := fs'\<rparr>)"
          using True by (simp add: images_step_def)
        with g r \<open>post_assets_slug_of E (title m) (url_slug_of u) = Inr slug\<close>
        have "process_post_body E u out fmts dl assets inc logp st
                = (Some AttributeError, ?st1\<lparr>files := fs'\<rparr>)"
          by (simp add: process_post_body_def render_step_undated [OF d])
        with res True show ?thesis by auto
      qed
    qed
  qed
qed

lemma post_loop_failed:
  "\<not> (inc \<and> JStr u \<in> set (processed st)) \<Longrightarrow>
   process_single_post E u out fmts dl assets inc logp st = (False, st') \<Longrightarrow>
   post_loop E out fmts dl assets inc logp (u # rest) (c, st) =
     post_loop E out fmts dl assets inc logp rest
       (c\<lparr>failed_downloads := failed_downloads c + 1\<rparr>, st')"
  by (cases inc) auto

lemma post_loop_succeeded:
  "\<not> (inc \<and> JStr u \<in> set (processed st)) \<Longrightarrow>
   process_single_post E u out fmts dl assets inc logp st = (True, st') \<Longrightarrow>
   post_loop E out fmts dl assets inc logp (u # rest) (c, st) =
     post_loop E out fmts dl assets inc logp rest
       (c\<lparr>successful_downloads := successful_downloads c + 1\<rparr>, st')"
  by (cases inc) auto

lemma post_loop_skipped:
  "inc \<and> JStr u \<in> set (processed st) \<Longrightarrow>
   post_loop E out fmts dl assets inc logp (u # rest) (c, st) =
     post_loop E out fmts dl assets inc logp rest
       (c\<lparr>skipped_downloads := skipped_downloads c + 1\<rparr>, st)"
  by simp

text \<open>
  C10. A post whose page names no published date gets \<^verbatim>\<open>None\<close> as its published date.
  When such a post is fetched, the computation of the date for the file name raises before
  the loop over the formats is entered: \<^verbatim>\<open>process_single_post\<close> returns
  \<^verbatim>\<open>False\<close>, the post is not marked as processed, the only files that can have been
  written are those of the image localisation, so no output exists in any format, and
  \<^verbatim>\<open>cli\<close> counts the post as failed and goes on.
\<close>

theorem undated_post_fails:
  assumes "\<not> (inc \<and> JStr u \<in> set (processed st))"
    and "get_post E u = Inr pg"
    and "no_published_date (page_soup pg)"
  shows "published_date (extract_metadata_from_post (fromisoformat E) (strptime_long E)
                          (page_soup pg) u) = JNull \<and>
    (\<exists>st'. process_single_post E u out fmts dl assets inc logp st = (False, st') \<and>
        processed st' = processed st \<and>
        (files st' = files st \<or>
         (dl \<and> (\<exists>content slug imgs'.
            download_images_and_rewrite_paths E content u (path_join (path_join out assets) slug)
              slug assets (files st) = Inr (imgs', files st')))) \<and>
        post_loop E out fmts dl assets inc logp (u # rest) (c, st) =
          post_loop E out fmts dl assets inc logp rest
            (c\<lparr>failed_downloads := failed_downloads c + 1\<rparr>, st'))"
proof
  show "published_date (extract_metadata_from_post (fromisoformat E) (strptime_long E)
                          (page_soup pg) u) = JNull"
    using assms(3) by (rule no_published_date_None)
next
  from process_post_body_undated [OF assms(2,3), of out fmts dl assets inc logp st]
  obtain e st' where b: "process_post_body E u out fmts dl assets inc logp st = (Some e, st')"
    and p: "processed st' = processed st"
    and f: "files st' = files st \<or>
         (dl \<and> (\<exists>content slug imgs'.
            download_images_and_rewrite_paths E content u (path_join (path_join out assets) slug)
              slug assets (files st) = Inr (imgs', files st')))"
    by blast
  from b assms(1) have r: "process_single_post E u out fmts dl assets inc logp st = (False, st')"
    by (simp add: process_single_post_def)
  from assms(1) r have "post_loop E out fmts dl assets inc logp (u # rest) (c, st) =
          post_loop E out fmts dl assets inc logp rest
            (c\<lparr>failed_downloads := failed_downloads c + 1\<rparr>, st')"
    by (rule post_loop_failed)
  with r p f show "\<exists>st'. process_single_post E u out fmts dl assets inc logp st = (False, st') \<and>
        processed st' = processed st \<and>
        (files st' = files st \<or>
         (dl \<and> (\<exists>content slug imgs'.
            download_images_and_rewrite_paths E content u (path_join (path_join out assets) slug)
              slug assets (files st) = Inr (imgs', files st')))) \<and>
        post_loop E out fmts dl assets inc logp (u # rest) (c, st) =
          post_loop E out fmts dl assets inc logp rest
            (c\<lparr>failed_downloads := failed_downloads c + 1\<rparr>, st')"
    by blast
qed

theorem undated_post_fails_witness:
  "\<not> (True \<and> JStr ''https://undated.substack.com/p/notes'' \<in> set (processed demo_state)) \<and>
   get_post demo_env ''https://undated.substack.com/p/notes'' = Inr undated_post \<and>
   no_published_date (page_soup undated_post) \<and>
   published_date (extract_metadata_from_post (fromisoformat demo_env) (strptime_long demo_env)
                     (page_soup undated_post) ''https://undated.substack.com/p/notes'') = JNull \<and>
   (\<exists>st'. process_single_post demo_env ''https://undated.substack.com/p/notes'' ''out''
            [''md'', ''json''] True ''assets'' True (Some ''out/.download_log.json'') demo_state
          = (False, st') \<and>
        processed st' = processed demo_state \<and>
        (files st' = files demo_state \<or>
         (True \<and> (\<exists>content slug imgs'.
            download_images_and_rewrite_paths demo_env content ''https://undated.substack.com/p/notes''
              (path_join (path_join ''out'' ''assets'') slug) slug ''assets'' (files demo_state)
              = Inr (imgs', files st')))) \<and>
        post_loop demo_env ''out'' [''md'', ''json''] True ''assets'' True
            (Some ''out/.download_log.json'') [''https://undated.substack.com/p/notes'']
            (no_counts, demo_state) =
          post_loop demo_env ''out'' [''md'', ''json''] True ''assets'' True
            (Some ''out/.download_log.json'') []
            (no_counts\<lparr>failed_downloads := failed_downloads no_counts + 1\<rparr>, st'))"
proof -
  have h1: "\<not> (True \<and> JStr ''https://undated.substack.com/p/notes'' \<in> set (processed demo_state))"
    by (simp add: demo_state_def)
  have h2: "get_post demo_env ''https://undated.substack.com/p/notes'' = Inr undated_post"
    by code_simp
  have h3: "no_published_date (page_soup undated_post)" by code_simp
  note R = undated_post_fails [OF h1 h2 h3, of "''out''" "[''md'', ''json'']" True "''assets''"
         "Some ''out/.download_log.json''" "[]" no_counts]
  from h1 h2 h3 R [THEN conjunct1] R [THEN conjunct2] show ?thesis by (intro conjI)
qed


subsection \<open>What the steps of a post leave in place\<close>

lemma keeps_refl [simp]: "keeps t fs fs"
  by (simp add: keeps_def)

lemma keeps_trans: "keeps t fs fs1 \<Longrightarrow> keeps t fs1 fs2 \<Longrightarrow> keeps t fs fs2"
  by (auto simp: keeps_def)

lemma keeps_any: "keeps [] fs fs' \<Longrightarrow> p \<noteq> [] \<Longrightarrow> path_exists fs p \<Longrightarrow> path_exists fs' p"
  by (auto simp: keeps_def)

lemma makedirs_keeps: "makedirs d fs = Inr fs1 \<Longrightarrow> keeps t fs fs1"
  by (auto simp: makedirs_def keeps_def path_exists_def split: if_splits option.splits entry.splits)

lemma partial_not_JsonDoc [simp]: "partial c \<noteq> JsonDoc j"
  by (cases c) simp_all

lemma write_file_keeps:
  "write_file w q c fs = (r, fs') \<Longrightarrow> (\<forall>j. c \<noteq> JsonDoc j) \<Longrightarrow> keeps t fs fs'"
  by (auto simp: write_file_def keeps_def path_exists_def split: if_splits write_outcome.splits)

lemma handle_conversion_error_keeps: "handle_conversion_error t fs = (r, fs') \<Longrightarrow> keeps t fs fs'"
  by (auto simp: handle_conversion_error_def os_remove_def keeps_def path_exists_def
           split: if_splits option.splits entry.splits)

lemma convert_with_pandoc_keeps:
  assumes "convert_with_pandoc E out prefix slug fmt filepath fs = (r, fs')"
  shows "keeps (temp_html_path_of out prefix slug) fs fs'"
proof -
  let ?t = "temp_html_path_of out prefix slug"
  obtain e fs1 where w: "write_file (write_result E) ?t NotJson fs = (e, fs1)"
    by (cases "write_file (write_result E) ?t NotJson fs")
  then have k1: "keeps ?t fs fs1" by (rule write_file_keeps) simp
  have k2: "keeps ?t fs1 ((filepath, NotText) # fs1)"
    by (auto simp: keeps_def)
  have k3: "os_remove ?t fs2 = Inr fs3 \<Longrightarrow> keeps ?t fs2 fs3" for fs2 fs3
    by (auto simp: os_remove_def keeps_def path_exists_def split: option.splits entry.splits if_splits)
  from assms w have "keeps ?t fs1 fs'"
    by (auto simp: convert_with_pandoc_def Let_def
             split: option.splits if_splits sum.splits
             intro: handle_conversion_error_keeps keeps_trans [OF k2] k3)
  with k1 show ?thesis by (rule keeps_trans)
qed

lemma output_path_not_temp:
  "output_path out prefix slug fmt \<noteq> temp_html_path_of out prefix slug"
proof
  assume e: "output_path out prefix slug fmt = temp_html_path_of out prefix slug"
  have "hd (prefix @ ''_'' @ slug @ ''.'' @ fmt) = hd (prefix @ ''_'' @ slug @ ''_temp.html'')"
    by (cases prefix) simp_all
  with e have "prefix @ ''_'' @ slug @ ''.'' @ fmt = prefix @ ''_'' @ slug @ ''_temp.html''"
    unfolding output_path_def temp_html_path_of_def
    by (elim path_join_same_head [rotated 3]) simp_all
  then show False by simp
qed

lemma write_file_done:
  "write_file w p c fs = (None, fs') \<Longrightarrow> w p = WriteOk \<and> lookup fs' p = Some c"
  by (auto simp: write_file_def split: if_splits write_outcome.splits)

lemma save_formats_keeps:
  "save_formats E out prefix slug fmts fs = (r, fs') \<Longrightarrow>
   keeps (temp_html_path_of out prefix slug) fs fs'"
proof (induction fmts arbitrary: fs)
  case Nil
  then show ?case by simp
next
  case (Cons fmt rest)
  let ?t = "temp_html_path_of out prefix slug"
  let ?p = "output_path out prefix slug fmt"
  show ?case
  proof (cases "makedirs (dirname ?p) fs")
    case (Inl e)
    with Cons.prems show ?thesis by simp
  next
    case (Inr fs1)
    then have k1: "keeps ?t fs fs1" by (rule makedirs_keeps)
    have "keeps ?t fs1 fs'"
    proof (cases "fmt = ''md'' \<or> fmt = ''html'' \<or> fmt = ''json''")
      case True
      obtain e fs2 where w: "write_file (write_result E) ?p
          (if fmt = ''json'' then PostJson else NotJson) fs1 = (e, fs2)"
        by (cases "write_file (write_result E) ?p (if fmt = ''json'' then PostJson else NotJson) fs1")
      then have k2: "keeps ?t fs1 fs2" by (rule write_file_keeps) simp
      show ?thesis
      proof (cases e)
        case None
        with Cons.prems Inr True w have "save_formats E out prefix slug rest fs2 = (r, fs')"
          by (simp add: Let_def)
        then have "keeps ?t fs2 fs'" by (rule Cons.IH)
        with k2 show ?thesis by (rule keeps_trans)
      next
        case (Some x)
        with Cons.prems Inr True w have "fs' = fs2" by (simp add: Let_def)
        with k2 show ?thesis by simp
      qed
    next
      case False
      show ?thesis
      proof (cases "fmt = ''pdf'' \<or> fmt = ''epub''")
        case pdf: True
        show ?thesis
        proof (cases "makedirs (dirname ?p) fs1")
          case (Inl e)
          with Cons.prems Inr False pdf show ?thesis by (auto simp: Let_def)
        next
          case m2: (Inr fs2)
          then have k2: "keeps ?t fs1 fs2" by (rule makedirs_keeps)
          obtain c fs3 where cv: "convert_with_pandoc E out prefix slug fmt ?p fs2 = (c, fs3)"
            by (cases "convert_with_pandoc E out prefix slug fmt ?p fs2")
          then have k3: "keeps ?t fs2 fs3" by (rule convert_with_pandoc_keeps)
          have "keeps ?t fs3 fs'"
          proof (cases c)
            case (Raised e)
            with Cons.prems Inr False pdf m2 cv have "fs' = fs3" by (auto simp: Let_def)
            then show ?thesis by simp
          next
            case Converted
            with Cons.prems Inr False pdf m2 cv
            have "save_formats E out prefix slug rest fs3 = (r, fs')" by (auto simp: Let_def)
            then show ?thesis by (rule Cons.IH)
          next
            case ConversionSkipped
            with Cons.prems Inr False pdf m2 cv
            have "save_formats E out prefix slug rest fs3 = (r, fs')" by (auto simp: Let_def)
            then show ?thesis by (rule Cons.IH)
          qed
          with keeps_trans [OF k2 k3] show ?thesis by (rule keeps_trans)
        qed
      next
        case other: False
        with Cons.prems Inr False have "save_formats E out prefix slug rest fs1 = (r, fs')"
          by (simp add: Let_def)
        then show ?thesis by (rule Cons.IH)
      qed
    qed
    with k1 show ?thesis by (rule keeps_trans)
  qed
qed

lemma keeps_exists: "keeps t fs fs' \<Longrightarrow> path_exists fs p \<Longrightarrow> p \<noteq> t \<Longrightarrow> path_exists fs' p"
  by (auto simp: keeps_def)

lemma save_formats_written:
  "save_formats E out prefix slug fmts fs = (None, fs') \<Longrightarrow> fmt \<in> set fmts \<Longrightarrow>
   fmt = ''md'' \<or> fmt = ''html'' \<or> fmt = ''json'' \<Longrightarrow>
   write_result E (output_path out prefix slug fmt) = WriteOk \<and>
   path_exists fs' (output_path out prefix slug fmt)"
proof (induction fmts arbitrary: fs)
  case Nil
  then show ?case by simp
next
  case (Cons f rest)
  let ?t = "temp_html_path_of out prefix slug"
  let ?p = "output_path out prefix slug f"
  from Cons.prems(1) obtain fs1 where m: "makedirs (dirname ?p) fs = Inr fs1"
    by (cases "makedirs (dirname ?p) fs") (auto simp: Let_def)
  show ?case
  proof (cases "f = ''md'' \<or> f = ''html'' \<or> f = ''json''")
    case True
    obtain e fs2 where w: "write_file (write_result E) ?p
        (if f = ''json'' then PostJson else NotJson) fs1 = (e, fs2)"
      by (cases "write_file (write_result E) ?p (if f = ''json'' then PostJson else NotJson) fs1")
    with Cons.prems(1) m True have e: "e = None"
      by (cases e) (auto simp: Let_def)
    with Cons.prems(1) m True w have rest: "save_formats E out prefix slug rest fs2 = (None, fs')"
      by (auto simp: Let_def)
    show ?thesis
    proof (cases "fmt = f")
      case same: True
      from w e have ok: "write_result E ?p = WriteOk" and "lookup fs2 ?p \<noteq> None"
        using write_file_done [of "write_result E" ?p _ fs1 fs2] by auto
      then have "path_exists fs2 ?p" by (simp add: path_exists_def)
      with save_formats_keeps [OF rest] have "path_exists fs' ?p"
        by (rule keeps_exists) (rule output_path_not_temp)
      with ok same show ?thesis by simp
    next
      case False
      with Cons.prems(2) have "fmt \<in> set rest" by simp
      with rest show ?thesis using Cons.prems(3) by (rule Cons.IH)
    qed
  next
    case False
    with Cons.prems(2,3) have in_rest: "fmt \<in> set rest" by auto
    show ?thesis
    proof (cases "f = ''pdf'' \<or> f = ''epub''")
      case pdf: True
      from Cons.prems(1) m False pdf obtain fs2 where m2: "makedirs (dirname ?p) fs1 = Inr fs2"
        by (cases "makedirs (dirname ?p) fs1") (auto simp: Let_def)
      obtain c fs3 where cv: "convert_with_pandoc E out prefix slug f ?p fs2 = (c, fs3)"
        by (cases "convert_with_pandoc E out prefix slug f ?p fs2")
      with Cons.prems(1) m False pdf m2
      have "save_formats E out prefix slug rest fs3 = (None, fs')"
        by (cases c) (auto simp: Let_def)
      then show ?thesis using in_rest Cons.prems(3) by (rule Cons.IH)
    next
      case other: False
      with Cons.prems(1) m False have "save_formats E out prefix slug rest fs1 = (None, fs')"
        by (simp add: Let_def)
      then show ?thesis using in_rest Cons.prems(3) by (rule Cons.IH)
    qed
  qed
qed

lemma unmarked_refl [simp]: "unmarked st st"
  by (simp add: unmarked_def)

lemma unmarked_fetched [simp]: "unmarked st (st\<lparr>fetched := f\<rparr>)"
  by (simp add: unmarked_def)

lemma unmarked_trans: "unmarked st st1 \<Longrightarrow> unmarked st1 st2 \<Longrightarrow> unmarked st st2"
  by (auto simp: unmarked_def)

lemma unmarked_files: "keeps t (files st) fs' \<Longrightarrow> unmarked st (st\<lparr>files := fs'\<rparr>)"
  by (auto simp: unmarked_def keeps_def)

lemma localize_image_keeps:
  "localize_image E b sd ps a i img fs = (img', fs') \<Longrightarrow> keeps t fs fs'"
  unfolding localize_image_def
  by (auto simp: Let_def split: option.splits if_splits sum.splits prod.splits
           intro: write_file_keeps)

lemma localize_images_keeps:
  "localize_images E b sd ps a seen imgs fs = (imgs', fs') \<Longrightarrow> keeps t fs fs'"
proof (induction imgs arbitrary: seen fs)
  case Nil
  then show ?case by simp
next
  case (Cons img rest)
  obtain img1 fs1 where s: "localize_image E b sd ps a (first_index (seen @ img # rest) img) img fs = (img1, fs1)"
    by (cases "localize_image E b sd ps a (first_index (seen @ img # rest) img) img fs")
  then have "keeps t fs fs1" by (rule localize_image_keeps)
  moreover from Cons.prems s have "localize_images E b sd ps a (seen @ [img1]) rest fs1 = (imgs', fs')"
    by simp
  then have "keeps t fs1 fs'" by (rule Cons.IH)
  ultimately show ?case by (rule keeps_trans)
qed

lemma download_images_keeps:
  "download_images_and_rewrite_paths E imgs b sd ps a fs = Inr (imgs', fs') \<Longrightarrow> keeps t fs fs'"
  by (auto simp: download_images_and_rewrite_paths_def split: if_splits sum.splits
           intro: keeps_trans [OF makedirs_keeps localize_images_keeps])

lemma images_step_unmarked:
  "images_step E dl content u out assets slug st = (r, st') \<Longrightarrow> unmarked st st'"
  by (auto simp: images_step_def split: if_splits sum.splits prod.splits
           intro: unmarked_files download_images_keeps)

lemma images_step_exists:
  "images_step E dl content u out assets slug st = (r, st') \<Longrightarrow> fetched st' = fetched st"
  by (auto simp: images_step_def split: if_splits sum.splits prod.splits)

lemma render_step_unmarked:
  "render_step E m us out fmts st = (r, st') \<Longrightarrow> unmarked st st'"
  by (auto simp: render_step_def split: sum.splits prod.splits
           intro: unmarked_files save_formats_keeps)

lemma render_step_done:
  "render_step E m us out fmts st = (None, st') \<Longrightarrow>
   \<exists>prefix slug. save_formats E out prefix slug fmts (files st) = (None, files st')"
  by (auto simp: render_step_def split: sum.splits prod.splits) blast

lemma write_file_exists:
  "write_file w q c fs = (r, fs') \<Longrightarrow> path_exists fs p \<Longrightarrow> path_exists fs' p"
  by (auto simp: write_file_def path_exists_def split: if_splits write_outcome.splits)

lemma makedirs_exists:
  "makedirs d fs = Inr fs1 \<Longrightarrow> path_exists fs p \<Longrightarrow> path_exists fs1 p"
  by (auto simp: makedirs_def path_exists_def split: if_splits option.splits entry.splits)

lemma log_step_result:
  assumes "log_step E True (Some logp) u st = (r, st')"
  shows "processed st' = set_add (JStr u) (processed st)"
    and "fetched st' = fetched st"
    and "path_exists (files st) p \<Longrightarrow> path_exists (files st') p"
    and "r = None \<Longrightarrow> lookup (files st') logp = Some (log_document (processed st'))"
proof -
  show "processed st' = set_add (JStr u) (processed st)"
    using assms by (auto simp: log_step_def save_to_download_log_def Let_def split: sum.splits prod.splits)
  show "fetched st' = fetched st"
    using assms by (auto simp: log_step_def save_to_download_log_def Let_def split: sum.splits prod.splits)
  show "path_exists (files st) p \<Longrightarrow> path_exists (files st') p"
    using assms
    by (auto simp: log_step_def save_to_download_log_def Let_def split: sum.splits prod.splits
             dest: makedirs_exists write_file_exists)
  show "r = None \<Longrightarrow> lookup (files st') logp = Some (log_document (processed st'))"
    using assms
    by (auto simp: log_step_def save_to_download_log_def Let_def split: sum.splits prod.splits
             dest: write_file_done)
qed

lemma set_add_member [simp]: "x \<in> set (set_add x xs)"
  by (simp add: set_add_def)

lemma set_set_add [simp]: "set (set_add x xs) = insert x (set xs)"
  by (auto simp: set_add_def)

text \<open>The body changes the processed set or writes a log only by reaching its last step.\<close>

lemma body_reaches_log:
  assumes b: "process_post_body E u out fmts dl assets True (Some logp) st = (r, st')"
    and marked: "\<not> unmarked st st'"
  shows "\<exists>pg m content slug st2 st3.
           get_post E u = Inr pg \<and>
           images_step E dl content u out assets slug (st\<lparr>fetched := fetched st @ [u]\<rparr>) = (None, st2) \<and>
           render_step E m (url_slug_of u) out fmts st2 = (None, st3) \<and>
           unmarked st st3 \<and> time_sleep E = None \<and>
           log_step E True (Some logp) u st3 = (r, st')"
proof (cases "get_post E u")
  case (Inl e)
  with b marked show ?thesis by (auto simp: process_post_body_def)
next
  case (Inr pg)
  let ?st1 = "st\<lparr>fetched := fetched st @ [u]\<rparr>"
  show ?thesis
  proof (cases "post_metadata E pg u")
    case (Inl e)
    with b marked Inr show ?thesis by (auto simp: process_post_body_def)
  next
    case pm: (Inr mc)
    obtain m content where mc: "mc = (m, content)" by (cases mc)
    show ?thesis
    proof (cases "post_assets_slug_of E (title m) (url_slug_of u)")
      case (Inl e)
      with b marked Inr pm mc show ?thesis by (auto simp: process_post_body_def)
    next
      case sl: (Inr slug)
      obtain r2 st2 where i: "images_step E dl content u out assets slug ?st1 = (r2, st2)"
        by (cases "images_step E dl content u out assets slug ?st1")
      then have u2: "unmarked st st2"
        using images_step_unmarked unmarked_trans [OF unmarked_fetched] by blast
      show ?thesis
      proof (cases r2)
        case (Some e)
        with b Inr pm mc sl i have "st' = st2" by (simp add: process_post_body_def)
        with u2 marked show ?thesis by simp
      next
        case None
        obtain r3 st3 where rs: "render_step E m (url_slug_of u) out fmts st2 = (r3, st3)"
          by (cases "render_step E m (url_slug_of u) out fmts st2")
        then have u3: "unmarked st st3" using render_step_unmarked unmarked_trans [OF u2] by blast
        show ?thesis
        proof (cases r3)
          case (Some e)
          with b Inr pm mc sl i None rs have "st' = st3" by (simp add: process_post_body_def)
          with u3 marked show ?thesis by simp
        next
          case n3: None
          show ?thesis
          proof (cases "time_sleep E")
            case (Some e)
            with b Inr pm mc sl i None rs n3 have "st' = st3" by (simp add: process_post_body_def)
            with u3 marked show ?thesis by simp
          next
            case ts: None
            with b Inr pm mc sl i None rs n3 have "log_step E True (Some logp) u st3 = (r, st')"
              by (simp add: process_post_body_def)
            with Inr i None rs n3 u3 ts show ?thesis by blast
          qed
        qed
      qed
    qed
  qed
qed


subsection \<open>Formats that are skipped\<close>

lemma makedirs_again: "makedirs d fs = Inr fs1 \<Longrightarrow> makedirs d fs1 = Inr fs1"
  by (auto simp: makedirs_def split: if_splits option.splits entry.splits)

lemma remove_path_absent: "lookup fs t = None \<Longrightarrow> remove_path t fs = fs"
  by (induction fs) (auto simp: remove_path_def lookup_def split: if_splits)

lemma remove_path_Cons:
  "remove_path t ((p, c) # fs) = (if p = t then remove_path t fs else (p, c) # remove_path t fs)"
  by (simp add: remove_path_def)

lemma handle_conversion_error_regular:
  "t \<noteq> [] \<Longrightarrow> lookup fs t \<noteq> Some Directory \<Longrightarrow>
   handle_conversion_error t fs = (ConversionSkipped, remove_path t fs)"
  by (auto simp: handle_conversion_error_def os_remove_def path_exists_def remove_path_absent
           split: option.splits entry.splits)

lemma handle_conversion_error_directory:
  "t \<noteq> [] \<Longrightarrow> lookup fs t = Some Directory \<Longrightarrow>
   handle_conversion_error t fs = (Raised OSError, fs)"
  by (simp add: handle_conversion_error_def os_remove_def path_exists_def)

lemma conversion_failed:
  assumes "\<not> convert_file E (temp_html_path_of out prefix slug) fmt p"
    and "lookup fs (temp_html_path_of out prefix slug) \<noteq> Some Directory"
  shows "convert_with_pandoc E out prefix slug fmt p fs =
           (ConversionSkipped, remove_path (temp_html_path_of out prefix slug) fs)"
  using assms
  by (cases "write_result E (temp_html_path_of out prefix slug)")
     (simp_all add: convert_with_pandoc_def write_file_def handle_conversion_error_regular
        remove_path_Cons)


lemma conversion_directory:
  assumes "lookup fs (temp_html_path_of out prefix slug) = Some Directory"
  shows "convert_with_pandoc E out prefix slug fmt p fs = (Raised OSError, fs)"
  using assms
  by (simp add: convert_with_pandoc_def write_file_def handle_conversion_error_directory)

lemma images_step_fetched:
  "images_step E dl content u out assets slug st = (r, st') \<Longrightarrow> fetched st' = fetched st"
  by (auto simp: images_step_def split: if_splits sum.splits prod.splits)

lemma render_step_fetched:
  "render_step E m slug out fmts st = (r, st') \<Longrightarrow> fetched st' = fetched st"
  by (auto simp: render_step_def split: sum.splits prod.splits)

lemma log_step_fetched:
  "log_step E inc logp u st = (r, st') \<Longrightarrow> fetched st' = fetched st"
  by (auto simp: log_step_def split: if_splits option.splits prod.splits)

lemma body_fetched:
  "process_post_body E u out fmts dl assets inc logp st = (r, st') \<Longrightarrow>
   fetched st' = fetched st @ [u]"
  by (auto simp: process_post_body_def Let_def
           split: sum.splits prod.splits option.splits
           dest!: images_step_fetched render_step_fetched log_step_fetched)

lemma save_formats_conversion_failed:
  assumes f: "f = ''pdf'' \<or> f = ''epub''"
    and c: "\<not> convert_file E (temp_html_path_of out p s) f (output_path out p s f)"
    and m: "makedirs (dirname (output_path out p s f)) fs = Inr fs1"
    and t: "lookup fs1 (temp_html_path_of out p s) \<noteq> Some Directory"
  shows "save_formats E out p s (f # others) fs =
           save_formats E out p s others (remove_path (temp_html_path_of out p s) fs1)"
  using f m makedirs_again [OF m] conversion_failed [OF c t] by (auto simp: Let_def)

lemma save_formats_conversion_directory:
  assumes f: "f = ''pdf'' \<or> f = ''epub''"
    and m: "makedirs (dirname (output_path out p s f)) fs = Inr fs1"
    and t: "lookup fs1 (temp_html_path_of out p s) = Some Directory"
  shows "save_formats E out p s (f # others) fs = (Some OSError, fs1)"
  using f m makedirs_again [OF m] conversion_directory [OF t] by (auto simp: Let_def)

lemma save_formats_unknown:
  assumes f: "g \<notin> {''md'', ''html'', ''json'', ''pdf'', ''epub''}"
    and m: "makedirs (dirname (output_path out p s g)) fs = Inr fs1"
  shows "save_formats E out p s (g # others) fs = save_formats E out p s others fs1"
  using f m by (auto simp: Let_def)

lemma body_log_step:
  assumes "get_post E u = Inr pg" and "post_metadata E pg u = Inr (m, content)"
    and "post_assets_slug_of E (title m) (url_slug_of u) = Inr aslug"
    and "images_step E dl content u out assets aslug (st\<lparr>fetched := fetched st @ [u]\<rparr>) = (None, st2)"
    and "render_step E m (url_slug_of u) out fmts st2 = (None, st3)"
    and "time_sleep E = None"
  shows "process_post_body E u out fmts dl assets inc logp st = log_step E inc logp u st3"
  using assms by (simp add: process_post_body_def)

lemma log_step_marks:
  "JStr u \<in> set (processed (snd (log_step E True logp u st)))"
  by (auto simp: log_step_def save_to_download_log_def Let_def
           split: option.splits sum.splits prod.splits)


subsection \<open>Marking a post as processed\<close>

text \<open>
  C1 as the specification states it: with incremental mode on, a URL enters the log only
  when every requested format was produced, and a failed \<^verbatim>\<open>pdf\<close> or \<^verbatim>\<open>epub\<close>
  conversion keeps the post unmarked. This fails: with the formats \<^verbatim>\<open>md\<close> and
  \<^verbatim>\<open>pdf\<close> and a converter that fails on \<^verbatim>\<open>pdf\<close>, no \<^verbatim>\<open>pdf\<close> file is made,
  yet \<^verbatim>\<open>process_single_post\<close> returns \<^verbatim>\<open>True\<close> and the URL is in the set and in
  the log file.
\<close>

theorem failed_pdf_conversion_still_recorded:
  "\<not> convert_file demo_env ''out/20230101_t_temp.html'' ''pdf'' ''out/20230101_t.pdf'' \<and>
   process_single_post demo_env ''https://demo.substack.com/p/first'' ''out''
       [''md'', ''pdf''] True ''assets'' True (Some ''out/.download_log.json'') demo_state
     = (True,
        \<lparr>files =
           [(''out/.download_log.json'',
             JsonDoc (JDict [(''processed_urls'', JList [JStr ''https://demo.substack.com/p/first''])])),
            (''out/20230101_t.md'', NotJson), (''out/assets/t/pic.png'', NotText),
            (''out/assets/t'', Directory), (''out'', Directory)],
         processed = [JStr ''https://demo.substack.com/p/first''],
         fetched = [''https://demo.substack.com/p/first'']\<rparr>)"
  by code_simp

text \<open>
  C1, amended. With incremental mode on:

  \<^item> A call of \<^verbatim>\<open>process_single_post\<close> changes the processed set, or puts a log at the
    path of the log file that was not there before, only when the post was fetched, the loop
    over the formats ran to its end with every requested \<^verbatim>\<open>md\<close>, \<^verbatim>\<open>html\<close> and
    \<^verbatim>\<open>json\<close> output written (the write succeeded and the file is there when the call
    returns), and \<^verbatim>\<open>time.sleep\<close> returned; what it adds to the set is the URL of the
    post.
  \<^item> A \<^verbatim>\<open>pdf\<close> or \<^verbatim>\<open>epub\<close> conversion in which the converter raises skips only that
    format, as long as no directory sits at the path of the temporary file: the loop goes
    on with the formats after it, from a file system that differs only by the removal of
    the temporary file.
  \<^item> If a directory sits at the path of the temporary file, \<^verbatim>\<open>os.remove\<close> raises in the
    handler, and the exception leaves the loop over the formats.
  \<^item> A format name that is none of the five is skipped.
  \<^item> When no exception leaves the steps before it (the fetch, the extraction, the slug, the
    images, the loop over the formats, \<^verbatim>\<open>time.sleep\<close>), the log step runs, and
    the URL is in the processed set after it.
  \<^item> A post that is not in the processed set is fetched by the next call for it.
\<close>

theorem log_records_after_outputs_written:
  "(process_single_post E u out fmts dl assets True (Some logp) st = (ok, st') \<longrightarrow>
      (processed st' \<noteq> processed st \<or>
       (\<exists>j. lookup (files st') logp = Some (JsonDoc j) \<and> lookup (files st) logp \<noteq> Some (JsonDoc j))) \<longrightarrow>
      (\<exists>pg. get_post E u = Inr pg) \<and>
      time_sleep E = None \<and>
      processed st' = set_add (JStr u) (processed st) \<and>
      (\<exists>prefix slug fs2 fs3.
         save_formats E out prefix slug fmts fs2 = (None, fs3) \<and>
         (\<forall>fmt\<in>set fmts. fmt = ''md'' \<or> fmt = ''html'' \<or> fmt = ''json'' \<longrightarrow>
            write_result E (output_path out prefix slug fmt) = WriteOk \<and>
            path_exists (files st') (output_path out prefix slug fmt)))) \<and>
   ((f = ''pdf'' \<or> f = ''epub'') \<longrightarrow>
      \<not> convert_file E (temp_html_path_of out p s) f (output_path out p s f) \<longrightarrow>
      makedirs (dirname (output_path out p s f)) fs = Inr fs1 \<longrightarrow>
      lookup fs1 (temp_html_path_of out p s) \<noteq> Some Directory \<longrightarrow>
      save_formats E out p s (f # others) fs =
        save_formats E out p s others (remove_path (temp_html_path_of out p s) fs1)) \<and>
   ((f = ''pdf'' \<or> f = ''epub'') \<longrightarrow>
      makedirs (dirname (output_path out p s f)) gs = Inr gs1 \<longrightarrow>
      lookup gs1 (temp_html_path_of out p s) = Some Directory \<longrightarrow>
      save_formats E out p s (f # others) gs = (Some OSError, gs1)) \<and>
   (g \<notin> {''md'', ''html'', ''json'', ''pdf'', ''epub''} \<longrightarrow>
      makedirs (dirname (output_path out p s g)) fs = Inr fs1 \<longrightarrow>
      save_formats E out p s (g # others) fs = save_formats E out p s others fs1) \<and>
   (get_post E u = Inr pg \<longrightarrow>
      post_metadata E pg u = Inr (m, content) \<longrightarrow>
      post_assets_slug_of E (title m) (url_slug_of u) = Inr aslug \<longrightarrow>
      images_step E dl content u out assets aslug (st\<lparr>fetched := fetched st @ [u]\<rparr>) = (None, st2) \<longrightarrow>
      render_step E m (url_slug_of u) out fmts st2 = (None, st3) \<longrightarrow>
      time_sleep E = None \<longrightarrow>
      process_post_body E u out fmts dl assets True (Some logp) st =
        log_step E True (Some logp) u st3 \<and>
      JStr u \<in> set (processed (snd (process_post_body E u out fmts dl assets True (Some logp) st)))) \<and>
   (JStr u \<notin> set (processed st) \<longrightarrow>
      fetched (snd (process_single_post E u out fmts dl assets True (Some logp) st)) =
        fetched st @ [u])"
proof (intro conjI impI)
  assume call: "process_single_post E u out fmts dl assets True (Some logp) st = (ok, st')"
    and recorded: "processed st' \<noteq> processed st \<or>
       (\<exists>j. lookup (files st') logp = Some (JsonDoc j) \<and> lookup (files st) logp \<noteq> Some (JsonDoc j))"
  from recorded have marked: "\<not> unmarked st st'" by (auto simp: unmarked_def)
  then have ne: "st' \<noteq> st" by auto
  with call obtain r where b: "process_post_body E u out fmts dl assets True (Some logp) st = (r, st')"
    by (auto simp: process_single_post_def split: if_splits prod.splits option.splits)
  from body_reaches_log [OF b marked] obtain pg m st2 st3
    where g: "get_post E u = Inr pg"
      and rs: "render_step E m (url_slug_of u) out fmts st2 = (None, st3)"
      and u3: "unmarked st st3"
      and ts: "time_sleep E = None"
      and ls: "log_step E True (Some logp) u st3 = (r, st')"
    by blast
  from g show "\<exists>pg. get_post E u = Inr pg" by blast
  from ts show "time_sleep E = None" .
  from u3 log_step_result(1) [OF ls] show "processed st' = set_add (JStr u) (processed st)"
    by (simp add: unmarked_def)
  from render_step_done [OF rs] obtain prefix slug
    where sf: "save_formats E out prefix slug fmts (files st2) = (None, files st3)" by blast
  have "\<forall>fmt\<in>set fmts. fmt = ''md'' \<or> fmt = ''html'' \<or> fmt = ''json'' \<longrightarrow>
       write_result E (output_path out prefix slug fmt) = WriteOk \<and>
       path_exists (files st') (output_path out prefix slug fmt)"
  proof (intro ballI impI)
    fix fmt assume "fmt \<in> set fmts" and "fmt = ''md'' \<or> fmt = ''html'' \<or> fmt = ''json''"
    with sf have "write_result E (output_path out prefix slug fmt) = WriteOk \<and>
       path_exists (files st3) (output_path out prefix slug fmt)" by (rule save_formats_written)
    with log_step_result(3) [OF ls]
    show "write_result E (output_path out prefix slug fmt) = WriteOk \<and>
       path_exists (files st') (output_path out prefix slug fmt)" by blast
  qed
  with sf show "\<exists>prefix slug fs2 fs3.
         save_formats E out prefix slug fmts fs2 = (None, fs3) \<and>
         (\<forall>fmt\<in>set fmts. fmt = ''md'' \<or> fmt = ''html'' \<or> fmt = ''json'' \<longrightarrow>
            write_result E (output_path out prefix slug fmt) = WriteOk \<and>
            path_exists (files st') (output_path out prefix slug fmt))" by blast
next
  assume "f = ''pdf'' \<or> f = ''epub''"
    and "\<not> convert_file E (temp_html_path_of out p s) f (output_path out p s f)"
    and "makedirs (dirname (output_path out p s f)) fs = Inr fs1"
    and "lookup fs1 (temp_html_path_of out p s) \<noteq> Some Directory"
  then show "save_formats E out p s (f # others) fs =
        save_formats E out p s others (remove_path (temp_html_path_of out p s) fs1)"
    by (rule save_formats_conversion_failed)
next
  assume "f = ''pdf'' \<or> f = ''epub''"
    and "makedirs (dirname (output_path out p s f)) gs = Inr gs1"
    and "lookup gs1 (temp_html_path_of out p s) = Some Directory"
  then show "save_formats E out p s (f # others) gs = (Some OSError, gs1)"
    by (rule save_formats_conversion_directory)
next
  assume "g \<notin> {''md'', ''html'', ''json'', ''pdf'', ''epub''}"
    and "makedirs (dirname (output_path out p s g)) fs = Inr fs1"
  then show "save_formats E out p s (g # others) fs = save_formats E out p s others fs1"
    by (rule save_formats_unknown)
next
  assume "get_post E u = Inr pg" and "post_metadata E pg u = Inr (m, content)"
    and "post_assets_slug_of E (title m) (url_slug_of u) = Inr aslug"
    and "images_step E dl content u out assets aslug (st\<lparr>fetched := fetched st @ [u]\<rparr>) = (None, st2)"
    and "render_step E m (url_slug_of u) out fmts st2 = (None, st3)"
    and "time_sleep E = None"
  then show e: "process_post_body E u out fmts dl assets True (Some logp) st =
        log_step E True (Some logp) u st3"
    by (rule body_log_step)
  show "JStr u \<in> set (processed (snd (process_post_body E u out fmts dl assets True (Some logp) st)))"
    unfolding e by (rule log_step_marks)
next
  assume n: "JStr u \<notin> set (processed st)"
  obtain r st4 where b: "process_post_body E u out fmts dl assets True (Some logp) st = (r, st4)"
    by (cases "process_post_body E u out fmts dl assets True (Some logp) st")
  from body_fetched [OF b] n b
  show "fetched (snd (process_single_post E u out fmts dl assets True (Some logp) st)) =
        fetched st @ [u]"
    by (cases r) (simp_all add: process_single_post_def)
qed

theorem log_records_after_outputs_written_witness:
  "\<exists>st'.
   process_single_post demo_env ''https://demo.substack.com/p/first'' ''out'' [''md'', ''json'']
       True ''assets'' True (Some ''out/.download_log.json'') demo_state = (True, st') \<and>
   processed st' \<noteq> processed demo_state \<and>
   (\<exists>pg. get_post demo_env ''https://demo.substack.com/p/first'' = Inr pg) \<and>
   time_sleep demo_env = None \<and>
   processed st' = set_add (JStr ''https://demo.substack.com/p/first'') (processed demo_state) \<and>
   (\<exists>prefix slug fs2 fs3.
      save_formats demo_env ''out'' prefix slug [''md'', ''json''] fs2 = (None, fs3) \<and>
      (\<forall>fmt\<in>set [''md'', ''json'']. fmt = ''md'' \<or> fmt = ''html'' \<or> fmt = ''json'' \<longrightarrow>
         write_result demo_env (output_path ''out'' prefix slug fmt) = WriteOk \<and>
         path_exists (files st') (output_path ''out'' prefix slug fmt))) \<and>
   \<not> convert_file demo_env (temp_html_path_of ''out'' ''20230101'' ''t'') ''pdf''
       (output_path ''out'' ''20230101'' ''t'' ''pdf'') \<and>
   lookup [(''out'', Directory)] (temp_html_path_of ''out'' ''20230101'' ''t'') \<noteq> Some Directory \<and>
   save_formats demo_env ''out'' ''20230101'' ''t'' [''pdf'', ''md''] [(''out'', Directory)]
     = save_formats demo_env ''out'' ''20230101'' ''t'' [''md'']
         (remove_path (temp_html_path_of ''out'' ''20230101'' ''t'') [(''out'', Directory)]) \<and>
   lookup [(''out/20230101_t_temp.html'', Directory), (''out'', Directory)]
       (temp_html_path_of ''out'' ''20230101'' ''t'') = Some Directory \<and>
   save_formats demo_env ''out'' ''20230101'' ''t'' [''pdf'', ''md'']
       [(''out/20230101_t_temp.html'', Directory), (''out'', Directory)]
     = (Some OSError, [(''out/20230101_t_temp.html'', Directory), (''out'', Directory)]) \<and>
   ''txt'' \<notin> {''md'', ''html'', ''json'', ''pdf'', ''epub''} \<and>
   save_formats demo_env ''out'' ''20230101'' ''t'' [''txt'', ''md''] [(''out'', Directory)]
     = save_formats demo_env ''out'' ''20230101'' ''t'' [''md''] [(''out'', Directory)] \<and>
   JStr ''https://demo.substack.com/p/first''
     \<in> set (processed (snd (process_post_body demo_env ''https://demo.substack.com/p/first'' ''out''
                [''md'', ''json''] True ''assets'' True (Some ''out/.download_log.json'') demo_state))) \<and>
   JStr ''https://demo.substack.com/p/first'' \<notin> set (processed demo_state) \<and>
   fetched (snd (process_single_post demo_env ''https://demo.substack.com/p/first'' ''out''
                [''md'', ''json''] True ''assets'' True (Some ''out/.download_log.json'') demo_state))
     = fetched demo_state @ [''https://demo.substack.com/p/first'']"
proof -
  let ?u = "''https://demo.substack.com/p/first''"
  let ?logp = "''out/.download_log.json''"
  let ?st = "\<lparr>files =
     [(''out/.download_log.json'', JsonDoc (JDict [(''processed_urls'', JList [JStr ?u])])),
      (''out/20230101_t.json'', PostJson), (''out/20230101_t.md'', NotJson),
      (''out/assets/t/pic.png'', NotText), (''out/assets/t'', Directory), (''out'', Directory)],
     processed = [JStr ?u], fetched = [?u]\<rparr>"
  let ?m = "\<lparr>title = JStr ''T'', author = JStr ''A'',
     published_date = JStr ''2023-01-01T12:00:00Z'', tags = [''x'', ''y''], url = ?u\<rparr>"
  let ?st2 = "\<lparr>files = [(''out/assets/t/pic.png'', NotText), (''out/assets/t'', Directory),
       (''out'', Directory)], processed = [], fetched = [?u]\<rparr>"
  let ?st3 = "\<lparr>files = [(''out/20230101_t.json'', PostJson), (''out/20230101_t.md'', NotJson),
       (''out/assets/t/pic.png'', NotText), (''out/assets/t'', Directory),
       (''out'', Directory)], processed = [], fetched = [?u]\<rparr>"
  let ?fs = "[(''out'', Directory)]"
  let ?gs = "[(''out/20230101_t_temp.html'', Directory), (''out'', Directory)]"
  note T = log_records_after_outputs_written
    [where E = demo_env and u = ?u and out = "''out''" and fmts = "[''md'', ''json'']"
       and dl = True and assets = "''assets''" and logp = ?logp and st = demo_state
       and ok = True and st' = ?st
       and f = "''pdf''" and p = "''20230101''" and s = "''t''" and others = "[''md'']"
       and fs = ?fs and ?fs1.0 = ?fs and gs = ?gs and ?gs1.0 = ?gs and g = "''txt''"
       and pg = demo_post and m = ?m and content = "[demo_image]" and aslug = "''t''"
       and ?st2.0 = ?st2 and ?st3.0 = ?st3]
  have call: "process_single_post demo_env ?u ''out'' [''md'', ''json''] True ''assets'' True
                (Some ?logp) demo_state = (True, ?st)"
    by code_simp
  have rec: "processed ?st \<noteq> processed demo_state" by (simp add: demo_state_def)
  note A = T [THEN conjunct1, rule_format, OF call disjI1 [OF rec]]
  have b1: "''pdf'' = ''pdf'' \<or> ''pdf'' = ''epub''" by (rule disjI1) (rule refl)
  have b2: "\<not> convert_file demo_env (temp_html_path_of ''out'' ''20230101'' ''t'') ''pdf''
       (output_path ''out'' ''20230101'' ''t'' ''pdf'')" by code_simp
  have b3: "makedirs (dirname (output_path ''out'' ''20230101'' ''t'' ''pdf'')) ?fs = Inr ?fs"
    by code_simp
  have b4: "lookup ?fs (temp_html_path_of ''out'' ''20230101'' ''t'') \<noteq> Some Directory"
    by code_simp
  note B = T [THEN conjunct2, THEN conjunct1, rule_format, OF b1 b2 b3 b4]
  have c2: "makedirs (dirname (output_path ''out'' ''20230101'' ''t'' ''pdf'')) ?gs = Inr ?gs"
    by code_simp
  have c3: "lookup ?gs (temp_html_path_of ''out'' ''20230101'' ''t'') = Some Directory"
    by code_simp
  note C = T [THEN conjunct2, THEN conjunct2, THEN conjunct1, rule_format, OF b1 c2 c3]
  have d1: "''txt'' \<notin> {''md'', ''html'', ''json'', ''pdf'', ''epub''}" by code_simp
  have d2: "makedirs (dirname (output_path ''out'' ''20230101'' ''t'' ''txt'')) ?fs = Inr ?fs"
    by code_simp
  note D = T [THEN conjunct2, THEN conjunct2, THEN conjunct2, THEN conjunct1, rule_format, OF d1 d2]
  have e1: "get_post demo_env ?u = Inr demo_post" by code_simp
  have e2: "post_metadata demo_env demo_post ?u = Inr (?m, [demo_image])" by code_simp
  have e3: "post_assets_slug_of demo_env (title ?m) (url_slug_of ?u) = Inr ''t''" by code_simp
  have e4: "images_step demo_env True [demo_image] ?u ''out'' ''assets'' ''t''
              (demo_state\<lparr>fetched := fetched demo_state @ [?u]\<rparr>) = (None, ?st2)" by code_simp
  have e5: "render_step demo_env ?m (url_slug_of ?u) ''out'' [''md'', ''json''] ?st2 = (None, ?st3)"
    by code_simp
  have e6: "time_sleep demo_env = None" by code_simp
  note E = T [THEN conjunct2, THEN conjunct2, THEN conjunct2, THEN conjunct2, THEN conjunct1,
              rule_format, OF e1 e2 e3 e4 e5 e6]
  have f1: "JStr ?u \<notin> set (processed demo_state)" by (simp add: demo_state_def)
  note F = T [THEN conjunct2, THEN conjunct2, THEN conjunct2, THEN conjunct2, THEN conjunct2,
              rule_format, OF f1]
  from call rec A [THEN conjunct1] e6 A [THEN conjunct2, THEN conjunct2, THEN conjunct1]
    A [THEN conjunct2, THEN conjunct2, THEN conjunct2]
    b2 b4 B c3 C d1 D E [THEN conjunct2] f1 F
  show ?thesis by (intro exI [of _ ?st] conjI)
qed


subsection \<open>Failures of single posts\<close>

lemma post_loop_counts:
  "post_loop E out fmts dl assets inc logp urls (c, st) = (c', st') \<Longrightarrow>
   successful_downloads c' + skipped_downloads c' + failed_downloads c' =
   successful_downloads c + skipped_downloads c + failed_downloads c + length urls"
proof (induction urls arbitrary: c st)
  case Nil
  then show ?case by simp
next
  case (Cons u rest)
  show ?case
  proof (cases "inc \<and> JStr u \<in> set (processed st)")
    case True
    with Cons.prems have "post_loop E out fmts dl assets inc logp rest
        (c\<lparr>skipped_downloads := skipped_downloads c + 1\<rparr>, st) = (c', st')"
      by (simp add: post_loop_skipped)
    from Cons.IH [OF this] show ?thesis by simp
  next
    case False
    obtain ok st1 where p: "process_single_post E u out fmts dl assets inc logp st = (ok, st1)"
      by (cases "process_single_post E u out fmts dl assets inc logp st")
    show ?thesis
    proof (cases ok)
      case True
      with Cons.prems False p have "post_loop E out fmts dl assets inc logp rest
          (c\<lparr>successful_downloads := successful_downloads c + 1\<rparr>, st1) = (c', st')"
        by (simp add: post_loop_succeeded)
      from Cons.IH [OF this] show ?thesis by simp
    next
      case f: False
      with Cons.prems False p have "post_loop E out fmts dl assets inc logp rest
          (c\<lparr>failed_downloads := failed_downloads c + 1\<rparr>, st1) = (c', st')"
        by (simp add: post_loop_failed)
      from Cons.IH [OF this] show ?thesis by simp
    qed
  qed
qed











subsection \<open>Running twice\<close>

lemma makedirs_keeps_directory:
  "lookup fs d = Some Directory \<Longrightarrow> makedirs q fs = Inr fs' \<Longrightarrow> lookup fs' d = Some Directory"
  by (auto simp: makedirs_def split: if_splits option.splits entry.splits)

lemma handle_conversion_error_keeps_directory:
  "lookup fs d = Some Directory \<Longrightarrow> handle_conversion_error t fs = (r, fs') \<Longrightarrow>
   lookup fs' d = Some Directory"
  by (auto simp: handle_conversion_error_def os_remove_def
           split: if_splits option.splits entry.splits)

lemma convert_with_pandoc_keeps_directory:
  assumes d: "lookup fs d = Some Directory"
    and c: "convert_with_pandoc E out prefix slug fmt filepath fs = (r, fs')"
  shows "lookup fs' d = Some Directory"
proof -
  let ?t = "temp_html_path_of out prefix slug"
  obtain e fs1 where w: "write_file (write_result E) ?t NotJson fs = (e, fs1)"
    by (cases "write_file (write_result E) ?t NotJson fs")
  with d have d1: "lookup fs1 d = Some Directory" by (rule write_file_keeps_directory)
  show ?thesis
  proof (cases e)
    case (Some x)
    with c w have "handle_conversion_error ?t fs1 = (r, fs')"
      by (simp add: convert_with_pandoc_def)
    with d1 show ?thesis by (rule handle_conversion_error_keeps_directory)
  next
    case None
    show ?thesis
    proof (cases "convert_file E ?t fmt filepath \<and> lookup fs1 filepath \<noteq> Some Directory")
      case False
      with c w None have "handle_conversion_error ?t fs1 = (r, fs')"
        by (simp add: convert_with_pandoc_def)
      with d1 show ?thesis by (rule handle_conversion_error_keeps_directory)
    next
      case True
      let ?fs2 = "(filepath, NotText) # fs1"
      from True d1 have d2: "lookup ?fs2 d = Some Directory" by auto
      show ?thesis
      proof (cases "path_exists ?fs2 ?t")
        case False
        with c w None True have "fs' = ?fs2"
          by (simp add: convert_with_pandoc_def Let_def)
        with d2 show ?thesis by simp
      next
        case ex: True
        show ?thesis
        proof (cases "os_remove ?t ?fs2")
          case (Inl x)
          with c w None True ex have "handle_conversion_error ?t ?fs2 = (r, fs')"
            by (simp add: convert_with_pandoc_def Let_def)
          with d2 show ?thesis by (rule handle_conversion_error_keeps_directory)
        next
          case (Inr fs3)
          with c w None True ex have "fs' = fs3"
            by (simp add: convert_with_pandoc_def Let_def)
          moreover from Inr d2 have "lookup fs3 d = Some Directory"
            by (auto simp: os_remove_def split: option.splits entry.splits if_splits)
          ultimately show ?thesis by simp
        qed
      qed
    qed
  qed
qed

lemma save_formats_keeps_directory:
  "lookup fs d = Some Directory \<Longrightarrow> save_formats E out prefix slug fmts fs = (r, fs') \<Longrightarrow>
   lookup fs' d = Some Directory"
proof (induction fmts arbitrary: fs)
  case Nil
  then show ?case by simp
next
  case (Cons fmt rest)
  let ?p = "output_path out prefix slug fmt"
  show ?case
  proof (cases "makedirs (dirname ?p) fs")
    case (Inl e)
    with Cons.prems show ?thesis by simp
  next
    case (Inr fs1)
    with Cons.prems(1) have d1: "lookup fs1 d = Some Directory" by (rule makedirs_keeps_directory)
    show ?thesis
    proof (cases "fmt = ''md'' \<or> fmt = ''html'' \<or> fmt = ''json''")
      case True
      obtain e fs2 where w: "write_file (write_result E) ?p
          (if fmt = ''json'' then PostJson else NotJson) fs1 = (e, fs2)"
        by (cases "write_file (write_result E) ?p (if fmt = ''json'' then PostJson else NotJson) fs1")
      with d1 have d2: "lookup fs2 d = Some Directory" by (rule write_file_keeps_directory)
      show ?thesis
      proof (cases e)
        case None
        with Cons.prems(2) Inr True w have "save_formats E out prefix slug rest fs2 = (r, fs')"
          by (simp add: Let_def)
        with d2 show ?thesis by (rule Cons.IH)
      next
        case (Some x)
        with Cons.prems(2) Inr True w have "fs' = fs2" by (simp add: Let_def)
        with d2 show ?thesis by simp
      qed
    next
      case False
      show ?thesis
      proof (cases "fmt = ''pdf'' \<or> fmt = ''epub''")
        case pdf: True
        show ?thesis
        proof (cases "makedirs (dirname ?p) fs1")
          case (Inl e)
          with Cons.prems(2) Inr False pdf d1 show ?thesis by (auto simp: Let_def)
        next
          case m2: (Inr fs2)
          with d1 have d2: "lookup fs2 d = Some Directory" by (rule makedirs_keeps_directory)
          obtain c fs3 where cv: "convert_with_pandoc E out prefix slug fmt ?p fs2 = (c, fs3)"
            by (cases "convert_with_pandoc E out prefix slug fmt ?p fs2")
          with d2 have d3: "lookup fs3 d = Some Directory" by (rule convert_with_pandoc_keeps_directory)
          show ?thesis
          proof (cases c)
            case (Raised e)
            with Cons.prems(2) Inr False pdf m2 cv have "fs' = fs3" by (auto simp: Let_def)
            with d3 show ?thesis by simp
          next
            case Converted
            with Cons.prems(2) Inr False pdf m2 cv
            have "save_formats E out prefix slug rest fs3 = (r, fs')" by (auto simp: Let_def)
            with d3 show ?thesis by (rule Cons.IH)
          next
            case ConversionSkipped
            with Cons.prems(2) Inr False pdf m2 cv
            have "save_formats E out prefix slug rest fs3 = (r, fs')" by (auto simp: Let_def)
            with d3 show ?thesis by (rule Cons.IH)
          qed
        qed
      next
        case other: False
        with Cons.prems(2) Inr False have "save_formats E out prefix slug rest fs1 = (r, fs')"
          by (simp add: Let_def)
        with d1 show ?thesis by (rule Cons.IH)
      qed
    qed
  qed
qed

lemma images_step_keeps_directory:
  "lookup (files st) d = Some Directory \<Longrightarrow>
   images_step E dl content u out assets slug st = (r, st') \<Longrightarrow>
   lookup (files st') d = Some Directory"
  by (auto simp: images_step_def download_images_and_rewrite_paths_def
           split: if_splits sum.splits prod.splits)
     (meson makedirs_keeps_directory localize_images_keeps_directory)

lemma render_step_keeps_directory:
  "lookup (files st) d = Some Directory \<Longrightarrow>
   render_step E m us out fmts st = (r, st') \<Longrightarrow>
   lookup (files st') d = Some Directory"
  by (auto simp: render_step_def split: sum.splits prod.splits
           dest: save_formats_keeps_directory)

lemma log_step_keeps_directory:
  "lookup (files st) d = Some Directory \<Longrightarrow>
   log_step E inc logp u st = (r, st') \<Longrightarrow>
   lookup (files st') d = Some Directory"
  by (auto simp: log_step_def save_to_download_log_def Let_def
           split: if_splits option.splits sum.splits prod.splits)
     (meson makedirs_keeps_directory write_file_keeps_directory)

lemma body_done:
  assumes b: "process_post_body E u out fmts dl assets inc logp st = (None, st')"
  shows "\<exists>m content slug st2 st3.
           images_step E dl content u out assets slug (st\<lparr>fetched := fetched st @ [u]\<rparr>) = (None, st2) \<and>
           render_step E m (url_slug_of u) out fmts st2 = (None, st3) \<and>
           time_sleep E = None \<and>
           log_step E inc logp u st3 = (None, st')"
proof (cases "get_post E u")
  case (Inl e)
  with b show ?thesis by (auto simp: process_post_body_def)
next
  case (Inr pg)
  let ?st1 = "st\<lparr>fetched := fetched st @ [u]\<rparr>"
  show ?thesis
  proof (cases "post_metadata E pg u")
    case (Inl e)
    with b Inr show ?thesis by (auto simp: process_post_body_def)
  next
    case pm: (Inr mc)
    obtain m content where mc: "mc = (m, content)" by (cases mc)
    show ?thesis
    proof (cases "post_assets_slug_of E (title m) (url_slug_of u)")
      case (Inl e)
      with b Inr pm mc show ?thesis by (auto simp: process_post_body_def)
    next
      case sl: (Inr slug)
      obtain r2 st2 where i: "images_step E dl content u out assets slug ?st1 = (r2, st2)"
        by (cases "images_step E dl content u out assets slug ?st1")
      show ?thesis
      proof (cases r2)
        case (Some e)
        with b Inr pm mc sl i show ?thesis by (simp add: process_post_body_def)
      next
        case None
        obtain r3 st3 where rs: "render_step E m (url_slug_of u) out fmts st2 = (r3, st3)"
          by (cases "render_step E m (url_slug_of u) out fmts st2")
        show ?thesis
        proof (cases r3)
          case (Some e)
          with b Inr pm mc sl i None rs show ?thesis by (simp add: process_post_body_def)
        next
          case n3: None
          show ?thesis
          proof (cases "time_sleep E")
            case (Some e)
            with b Inr pm mc sl i None rs n3 show ?thesis by (simp add: process_post_body_def)
          next
            case ts: None
            with b Inr pm mc sl i None rs n3 have "log_step E inc logp u st3 = (None, st')"
              by (simp add: process_post_body_def)
            with i None rs n3 ts show ?thesis by blast
          qed
        qed
      qed
    qed
  qed
qed

lemma process_single_post_success:
  assumes n: "JStr u \<notin> set (processed st)"
    and p: "process_single_post E u out fmts dl assets True (Some logp) st = (True, st')"
  shows "processed st' = set_add (JStr u) (processed st)"
    and "lookup (files st') logp = Some (log_document (processed st'))"
    and "lookup (files st) d = Some Directory \<Longrightarrow> lookup (files st') d = Some Directory"
proof -
  from n p have b: "process_post_body E u out fmts dl assets True (Some logp) st = (None, st')"
    by (auto simp: process_single_post_def split: prod.splits option.splits)
  from body_done [OF b] obtain m content slug st2 st3
    where i: "images_step E dl content u out assets slug (st\<lparr>fetched := fetched st @ [u]\<rparr>) = (None, st2)"
      and rs: "render_step E m (url_slug_of u) out fmts st2 = (None, st3)"
      and ls: "log_step E True (Some logp) u st3 = (None, st')"
    by blast
  from images_step_unmarked [OF i] render_step_unmarked [OF rs]
  have "processed st3 = processed st" by (simp add: unmarked_def)
  with log_step_result(1) [OF ls] show "processed st' = set_add (JStr u) (processed st)" by simp
  from log_step_result(4) [OF ls] show "lookup (files st') logp = Some (log_document (processed st'))"
    by simp
  assume "lookup (files st) d = Some Directory"
  then have "lookup (files (st\<lparr>fetched := fetched st @ [u]\<rparr>)) d = Some Directory" by simp
  from images_step_keeps_directory [OF this i] have "lookup (files st2) d = Some Directory" .
  from render_step_keeps_directory [OF this rs] have "lookup (files st3) d = Some Directory" .
  from log_step_keeps_directory [OF this ls] show "lookup (files st') d = Some Directory" .
qed

lemma set_members_subset: "set (set_members seen xs) \<subseteq> set xs"
  by (induction xs arbitrary: seen) auto

lemma set_members_keys:
  "distinct (map py_key (set_members seen xs)) \<and>
   py_key ` set (set_members seen xs) \<inter> set seen = {}"
proof (induction xs arbitrary: seen)
  case Nil
  show ?case by simp
next
  case (Cons x xs)
  show ?case
  proof (cases "py_key x \<in> set seen")
    case True
    with Cons [of seen] show ?thesis by simp
  next
    case False
    with Cons [of "py_key x # seen"] show ?thesis by auto
  qed
qed

lemma set_members_id:
  "distinct (map py_key xs) \<Longrightarrow> py_key ` set xs \<inter> set seen = {} \<Longrightarrow> set_members seen xs = xs"
  by (induction xs arbitrary: seen) auto

lemma hashable_strings: "list_all hashable (map (\<lambda>x. JStr (f x)) xs)"
  by (induction xs) simp_all

lemma py_set_ok: "py_set x = Inr P \<Longrightarrow> distinct (map py_key P) \<and> list_all hashable P"
proof (cases x)
  case (JList xs)
  assume "py_set x = Inr P"
  with JList have h: "list_all hashable xs" and P: "P = set_members [] xs"
    by (auto simp: py_set_def split: if_splits)
  from h set_members_subset [of "[]" xs] have "list_all hashable P"
    unfolding P list_all_iff by blast
  with set_members_keys [of "[]" xs] P show ?thesis by simp
next
  case (JStr t)
  assume "py_set x = Inr P"
  with JStr have P: "P = set_members [] (map (\<lambda>c. JStr [c]) t)" by (simp add: py_set_def)
  from hashable_strings [of "\<lambda>c. [c]" t] set_members_subset [of "[]" "map (\<lambda>c. JStr [c]) t"]
  have "list_all hashable P" unfolding P list_all_iff by blast
  with set_members_keys [of "[]" "map (\<lambda>c. JStr [c]) t"] P show ?thesis by simp
next
  case (JDict d)
  assume "py_set x = Inr P"
  with JDict have P: "P = set_members [] (map (\<lambda>(k, v). JStr k) d)" by (simp add: py_set_def)
  have e: "map (\<lambda>(k, v). JStr k) d = map (\<lambda>kv. JStr (fst kv)) d"
    by (simp add: case_prod_unfold)
  from hashable_strings [of fst d] set_members_subset [of "[]" "map (\<lambda>kv. JStr (fst kv)) d"]
  have "list_all hashable P" unfolding P e list_all_iff by blast
  with set_members_keys [of "[]" "map (\<lambda>(k, v). JStr k) d"] P show ?thesis by simp
qed (simp_all add: py_set_def)

lemma load_download_log_ok:
  "fst (load_download_log fs p) = Inr P \<Longrightarrow> distinct (map py_key P) \<and> list_all hashable P"
  by (auto simp: load_download_log_def split: option.splits entry.splits json.splits
           dest: py_set_ok)

lemma load_log_document:
  "distinct (map py_key ps) \<Longrightarrow> list_all hashable ps \<Longrightarrow>
   lookup fs p = Some (log_document ps) \<Longrightarrow>
   fst (load_download_log fs p) = Inr ps"
  by (simp add: load_download_log_def log_document_def py_set_def set_members_id)

lemma post_loop_failed_mono:
  "post_loop E out fmts dl assets inc logp urls (c, st) = (c', st') \<Longrightarrow>
   failed_downloads c \<le> failed_downloads c'"
proof (induction urls arbitrary: c st)
  case Nil
  then show ?case by simp
next
  case (Cons u rest)
  show ?case
  proof (cases "inc \<and> JStr u \<in> set (processed st)")
    case True
    with Cons.prems have "post_loop E out fmts dl assets inc logp rest
        (c\<lparr>skipped_downloads := skipped_downloads c + 1\<rparr>, st) = (c', st')"
      by (simp add: post_loop_skipped)
    from Cons.IH [OF this] show ?thesis by simp
  next
    case False
    obtain ok st1 where p: "process_single_post E u out fmts dl assets inc logp st = (ok, st1)"
      by (cases "process_single_post E u out fmts dl assets inc logp st")
    show ?thesis
    proof (cases ok)
      case True
      with Cons.prems False p have "post_loop E out fmts dl assets inc logp rest
          (c\<lparr>successful_downloads := successful_downloads c + 1\<rparr>, st1) = (c', st')"
        by (simp add: post_loop_succeeded)
      from Cons.IH [OF this] show ?thesis by simp
    next
      case f: False
      with Cons.prems False p have "post_loop E out fmts dl assets inc logp rest
          (c\<lparr>failed_downloads := failed_downloads c + 1\<rparr>, st1) = (c', st')"
        by (simp add: post_loop_failed)
      from Cons.IH [OF this] show ?thesis by simp
    qed
  qed
qed

lemma py_key_JStr: "py_key x = JStr u \<Longrightarrow> x = JStr u"
  by (cases x) (simp_all split: if_splits)

lemma set_add_ok:
  "distinct (map py_key ps) \<Longrightarrow> list_all hashable ps \<Longrightarrow>
   distinct (map py_key (set_add (JStr u) ps)) \<and> list_all hashable (set_add (JStr u) ps)"
  by (auto simp: set_add_def dest: py_key_JStr [OF sym])

lemma post_loop_no_failure:
  "log_in_step d logp st \<Longrightarrow>
   post_loop E out fmts dl assets True (Some logp) urls (c, st) = (c', st') \<Longrightarrow>
   failed_downloads c' = failed_downloads c \<Longrightarrow>
   log_in_step d logp st' \<and> set (processed st) \<subseteq> set (processed st') \<and>
   (\<forall>u\<in>set urls. JStr u \<in> set (processed st'))"
proof (induction urls arbitrary: c st)
  case Nil
  then show ?case by simp
next
  case (Cons u rest)
  show ?case
  proof (cases "JStr u \<in> set (processed st)")
    case True
    with Cons.prems(2) have l: "post_loop E out fmts dl assets True (Some logp) rest
        (c\<lparr>skipped_downloads := skipped_downloads c + 1\<rparr>, st) = (c', st')"
      by (simp add: post_loop_skipped)
    from Cons.IH [OF Cons.prems(1) l] Cons.prems(3) True show ?thesis by auto
  next
    case False
    obtain ok st1 where p: "process_single_post E u out fmts dl assets True (Some logp) st = (ok, st1)"
      by (cases "process_single_post E u out fmts dl assets True (Some logp) st")
    show ?thesis
    proof (cases ok)
      case f: False
      with Cons.prems(2) False p have "post_loop E out fmts dl assets True (Some logp) rest
          (c\<lparr>failed_downloads := failed_downloads c + 1\<rparr>, st1) = (c', st')"
        by (simp add: post_loop_failed)
      from post_loop_failed_mono [OF this] Cons.prems(3) show ?thesis by simp
    next
      case True
      with p have p': "process_single_post E u out fmts dl assets True (Some logp) st = (True, st1)"
        by simp
      from Cons.prems(2) False p' have l: "post_loop E out fmts dl assets True (Some logp) rest
          (c\<lparr>successful_downloads := successful_downloads c + 1\<rparr>, st1) = (c', st')"
        by (simp add: post_loop_succeeded)
      note s = process_single_post_success [OF False p']
      from Cons.prems(1) have inv: "lookup (files st) d = Some Directory"
        "distinct (map py_key (processed st))" "list_all hashable (processed st)"
        by (simp_all add: log_in_step_def)
      from set_add_ok [OF inv(2,3), of u] s(1)
      have ok1: "distinct (map py_key (processed st1))" "list_all hashable (processed st1)"
        by simp_all
      from load_log_document [OF ok1 s(2)] s(3) [OF inv(1)] ok1
      have inv1: "log_in_step d logp st1" by (simp add: log_in_step_def)
      from Cons.IH [OF inv1 l] Cons.prems(3)
      have r: "log_in_step d logp st'" "set (processed st1) \<subseteq> set (processed st')"
        "\<forall>u\<in>set rest. JStr u \<in> set (processed st')" by simp_all
      from s(1) have "JStr u \<in> set (processed st1)" "set (processed st) \<subseteq> set (processed st1)"
        by auto
      with r show ?thesis by auto
    qed
  qed
qed

lemma post_loop_all_skipped:
  "\<forall>u\<in>set urls. JStr u \<in> set (processed st) \<Longrightarrow>
   post_loop E out fmts dl assets True logp urls (c, st) =
     (c\<lparr>skipped_downloads := skipped_downloads c + length urls\<rparr>, st)"
  by (induction urls arbitrary: c) simp_all

lemma makedirs_directory: "d \<noteq> [] \<Longrightarrow> lookup fs d = Some Directory \<Longrightarrow> makedirs d fs = Inr fs"
  by (simp add: makedirs_def)

lemma makedirs_not_Nil: "makedirs d fs = Inr fs1 \<Longrightarrow> d \<noteq> []"
  by (auto simp: makedirs_def split: if_splits)

text \<open>
  C3 as the specification states it: a second incremental run over an unchanged source
  fetches no post. This fails when a post failed in the first run. The only post of
  \<^verbatim>\<open>undated.substack.com\<close> names no published date, so it fails and is not recorded;
  the second run, started from the files the first one left, fetches it again.
\<close>

theorem second_run_fetches_failed_post:
  "process_substack demo_env demo_args 0 ''https://undated.substack.com'' []
     = Some (Inr (\<lparr>successful_downloads = 0, skipped_downloads = 0, failed_downloads = 1\<rparr>,
                  [(''out'', Directory)], [''https://undated.substack.com/p/notes''])) \<and>
   process_substack demo_env demo_args 0 ''https://undated.substack.com'' [(''out'', Directory)]
     = Some (Inr (\<lparr>successful_downloads = 0, skipped_downloads = 0, failed_downloads = 1\<rparr>,
                  [(''out'', Directory)], [''https://undated.substack.com/p/notes'']))"
  by code_simp

text \<open>
  C3, amended. Take a run of \<^verbatim>\<open>cli\<close> over one Substack with incremental mode on that
  comes to its end with no failed post, and run it again in the same environment from the
  files it left. The second run returns; it fetches no post; it counts every URL of the
  archive as skipped (as many as the first run downloaded or skipped) and none as
  downloaded or failed; and it leaves every file, the log among them, as it was.
\<close>

theorem second_run_skips_every_post:
  assumes inc: "incremental a"
    and run: "process_substack E a idx s fs = Some (Inr (c1, fs1, f1))"
    and nofail: "failed_downloads c1 = 0"
  shows "process_substack E a idx s fs1 =
           Some (Inr (\<lparr>successful_downloads = 0,
                        skipped_downloads = successful_downloads c1 + skipped_downloads c1,
                        failed_downloads = 0\<rparr>, fs1, []))"
proof (cases "s = []")
  case True
  with run show ?thesis by (auto simp: process_substack_def)
next
  case ne: False
  let ?zero = "\<lparr>successful_downloads = 0, skipped_downloads = 0, failed_downloads = 0\<rparr>"
  let ?d = "current_output_dir_of E a idx s"
  let ?logp = "path_join ?d ''.download_log.json''"
  let ?fmts = "formats_to_save_of (formats a)"
  from run ne obtain fsA where mk: "makedirs ?d fs = Inr fsA"
    by (auto simp: process_substack_def Let_def split: sum.splits)
  from run ne inc mk obtain P0 where ld: "fst (load_download_log fsA ?logp) = Inr P0"
    by (auto simp: process_substack_def Let_def split: sum.splits)
  from run ne inc mk ld obtain urls
    where ar: "get_all_post_urls E (rstrip_slash s @ ''/'') = Some urls"
    by (auto simp: process_substack_def Let_def split: option.splits)
  let ?st0 = "\<lparr>files = fsA, processed = P0, fetched = []\<rparr>"
  obtain c st1 where pl: "post_loop E ?d ?fmts (download_images a) (assets_dir_name a) True
      (Some ?logp) urls (?zero, ?st0) = (c, st1)"
    by (cases "post_loop E ?d ?fmts (download_images a) (assets_dir_name a) True
      (Some ?logp) urls (?zero, ?st0)")
  with run ne inc mk ld ar have res: "c = c1" "files st1 = fs1"
    by (simp_all add: process_substack_def Let_def)
  from makedirs_result [OF mk] ld load_download_log_ok [OF ld]
  have inv0: "log_in_step ?d ?logp ?st0" by (simp add: log_in_step_def)
  from nofail res have "failed_downloads c = failed_downloads ?zero" by simp
  from post_loop_no_failure [OF inv0 pl this]
  have inv1: "log_in_step ?d ?logp st1" and all: "\<forall>u\<in>set urls. JStr u \<in> set (processed st1)"
    by simp_all
  from post_loop_counts [OF pl] nofail res
  have len: "length urls = successful_downloads c1 + skipped_downloads c1" by simp
  from inv1 res have dir1: "lookup fs1 ?d = Some Directory"
    and ld1: "fst (load_download_log fs1 ?logp) = Inr (processed st1)"
    by (simp_all add: log_in_step_def)
  from makedirs_directory [OF makedirs_not_Nil [OF mk] dir1] have mk1: "makedirs ?d fs1 = Inr fs1" .
  let ?st2 = "\<lparr>files = fs1, processed = processed st1, fetched = []\<rparr>"
  from all have "\<forall>u\<in>set urls. JStr u \<in> set (processed ?st2)" by simp
  from post_loop_all_skipped [OF this]
  have "post_loop E ?d ?fmts (download_images a) (assets_dir_name a) True (Some ?logp) urls
          (?zero, ?st2) = (?zero\<lparr>skipped_downloads := skipped_downloads ?zero + length urls\<rparr>, ?st2)" .
  with ne inc mk1 ld1 ar len show ?thesis
    by (simp add: process_substack_def Let_def)
qed

theorem second_run_skips_every_post_witness:
  "incremental demo_args \<and>
   process_substack demo_env demo_args 0 ''https://demo.substack.com'' []
     = Some (Inr (\<lparr>successful_downloads = 1, skipped_downloads = 0, failed_downloads = 0\<rparr>,
                  [(''out/.download_log.json'',
                    JsonDoc (JDict [(''processed_urls'',
                                     JList [JStr ''https://demo.substack.com/p/first''])])),
                   (''out/20230101_t.json'', PostJson), (''out/20230101_t.md'', NotJson),
                   (''out/assets/t/pic.png'', NotText), (''out/assets/t'', Directory),
                   (''out'', Directory)],
                  [''https://demo.substack.com/p/first''])) \<and>
   failed_downloads \<lparr>successful_downloads = 1, skipped_downloads = 0, failed_downloads = 0\<rparr> = 0 \<and>
   process_substack demo_env demo_args 0 ''https://demo.substack.com''
       [(''out/.download_log.json'',
         JsonDoc (JDict [(''processed_urls'', JList [JStr ''https://demo.substack.com/p/first''])])),
        (''out/20230101_t.json'', PostJson), (''out/20230101_t.md'', NotJson),
        (''out/assets/t/pic.png'', NotText), (''out/assets/t'', Directory),
        (''out'', Directory)]
     = Some (Inr (\<lparr>successful_downloads = 0,
                    skipped_downloads =
                      successful_downloads
                        \<lparr>successful_downloads = 1, skipped_downloads = 0, failed_downloads = 0\<rparr> +
                      skipped_downloads
                        \<lparr>successful_downloads = 1, skipped_downloads = 0, failed_downloads = 0\<rparr>,
                    failed_downloads = 0\<rparr>,
                  [(''out/.download_log.json'',
                    JsonDoc (JDict [(''processed_urls'',
                                     JList [JStr ''https://demo.substack.com/p/first''])])),
                   (''out/20230101_t.json'', PostJson), (''out/20230101_t.md'', NotJson),
                   (''out/assets/t/pic.png'', NotText), (''out/assets/t'', Directory),
                   (''out'', Directory)],
                  []))"
proof -
  let ?c1 = "\<lparr>successful_downloads = 1, skipped_downloads = 0, failed_downloads = 0\<rparr>"
  let ?fs1 = "[(''out/.download_log.json'',
         JsonDoc (JDict [(''processed_urls'', JList [JStr ''https://demo.substack.com/p/first''])])),
        (''out/20230101_t.json'', PostJson), (''out/20230101_t.md'', NotJson),
        (''out/assets/t/pic.png'', NotText), (''out/assets/t'', Directory),
        (''out'', Directory)]"
  have inc: "incremental demo_args" by code_simp
  have run: "process_substack demo_env demo_args 0 ''https://demo.substack.com'' []
     = Some (Inr (?c1, ?fs1, [''https://demo.substack.com/p/first'']))" by code_simp
  have nofail: "failed_downloads ?c1 = 0" by simp
  from inc run nofail second_run_skips_every_post [OF inc run nofail]
  show ?thesis by (intro conjI)
qed

end
